theory Spec2Isabelle
  imports Complex_Main "HOL-Library.AList"
begin

section \<open>The animation system of the map renderer\<close>

text \<open>
  A shallow embedding of \<^verbatim>\<open>drape_frontend/animation_system.cpp\<close>: the interpolators, the
  follow animation, the sequence animation and the scheduler \<^verbatim>\<open>AnimationSystem\<close>.

  Conventions of the embedding.
  \<^item> A finite C++ \<^verbatim>\<open>double\<close> is a \<^typ>\<open>real\<close>. A computed double is a
    \<^typ>\<open>real option\<close>, where \<open>None\<close> stands for an infinity or a NaN (a division by
    zero, an overflow), which are not numbers.
  \<^item> The clock of an interpolator (its sums, differences and quotients of times) is
    rounded the way IEEE 754 rounds a binary64 operation, to the nearest double with ties
    to the even mantissa. The durations that the typed interpolators compute from their
    endpoints are not rounded.
  \<^item> A method that changes its object takes the object and returns the changed one.
  \<^item> \<^verbatim>\<open>ASSERT\<close> stops the program in a debug build and does nothing otherwise; where an
    assertion can fail, the build is a parameter and the failure a value of a sum type.
\<close>

subsection \<open>Doubles\<close>

text \<open>Division of doubles: a zero divisor gives an infinity or a NaN.\<close>

definition fdiv :: "real \<Rightarrow> real \<Rightarrow> real option" where
  "fdiv x y = (if y = 0 then None else Some (x / y))"

text \<open>
  Modelled from the spec: \<^verbatim>\<open>my::AlmostEqualAbs\<close> of \<^verbatim>\<open>base/math.hpp\<close>, which is not among
  the sources: two doubles are almost equal when they differ by less than \<open>eps\<close>.
\<close>

definition AlmostEqualAbs :: "real \<Rightarrow> real \<Rightarrow> real \<Rightarrow> bool" where
  "AlmostEqualAbs x y eps = (\<bar>x - y\<bar> < eps)"

definition CalcAnimSpeedDuration :: "real \<Rightarrow> real \<Rightarrow> real option" where
  "CalcAnimSpeedDuration pxDiff pxSpeed =
     (let kEps = 1 / 100000 in
      if AlmostEqualAbs pxDiff 0 kEps then Some 0
      else fdiv \<bar>pxDiff\<bar> pxSpeed)"

subsection \<open>Rounded arithmetic\<close>

text \<open>
  The integer nearest to a real, the even one of the two when the real is halfway.
\<close>

definition rne :: "real \<Rightarrow> int" where
  "rne y =
     (let f = \<lfloor>y\<rfloor>; d = y - of_int f
      in if d < 1 / 2 then f else if 1 / 2 < d then f + 1 else if even f then f else f + 1)"

text \<open>
  The exponent of the binade of a real other than zero, not below the exponent of the
  subnormal doubles, and the distance of neighbouring doubles in that binade: a mantissa
  has 53 bits.
\<close>

definition expo :: "real \<Rightarrow> int" where
  "expo x = max \<lfloor>log 2 \<bar>x\<bar>\<rfloor> (- 1022)"

definition ulp :: "real \<Rightarrow> real" where
  "ulp x = 2 powr (of_int (expo x) - 52)"

text \<open>The real rounded to the nearest double, while the exponent is not bounded above.\<close>

definition rnd :: "real \<Rightarrow> real" where
  "rnd x = (if x = 0 then 0 else of_int (rne (x / ulp x)) * ulp x)"

text \<open>A rounded result of magnitude \<open>2 ^ 1024\<close> or more has overflowed to an infinity.\<close>

definition finite_double :: "real \<Rightarrow> real option" where
  "finite_double r = (if \<bar>r\<bar> < 2 ^ 1024 then Some r else None)"

text \<open>The reals that are finite doubles.\<close>

definition is_double :: "real \<Rightarrow> bool" where
  "is_double x = (rnd x = x \<and> \<bar>x\<bar> < 2 ^ 1024)"

text \<open>The sum, the difference and the quotient of two finite doubles.\<close>

definition dadd :: "real \<Rightarrow> real \<Rightarrow> real option" where
  "dadd x y = finite_double (rnd (x + y))"

definition dsub :: "real \<Rightarrow> real \<Rightarrow> real option" where
  "dsub x y = finite_double (rnd (x - y))"

definition ddiv :: "real \<Rightarrow> real \<Rightarrow> real option" where
  "ddiv x y = (if y = 0 then None else finite_double (rnd (x / y)))"

subsection \<open>Interpolator\<close>

record Interpolator =
  m_elapsedTime :: real
  m_duration :: real
  m_delay :: real

text \<open>
  The constructor. Its \<^verbatim>\<open>ASSERT(m_duration >= 0.0)\<close> is a debug check on the caller; it
  passes for the durations that are not negative, the ones the statements below are about.
\<close>

definition Interpolator_new :: "real \<Rightarrow> real \<Rightarrow> Interpolator" where
  "Interpolator_new duration delay =
     \<lparr>m_elapsedTime = 0, m_duration = duration, m_delay = delay\<rparr>"

text \<open>
  \<^verbatim>\<open>IsFinished\<close> compares the elapsed time with the double sum of the duration and the
  delay. A sum that overflows is an infinity of the sign of the exact sum.
\<close>

definition Interpolator_IsFinished :: "'z Interpolator_scheme \<Rightarrow> bool" where
  "Interpolator_IsFinished i =
     (case dadd (m_duration i) (m_delay i) of
        Some s \<Rightarrow> m_elapsedTime i > s
      | None \<Rightarrow> m_duration i + m_delay i < 0)"

text \<open>
  \<^verbatim>\<open>Advance\<close> adds to the elapsed time. An elapsed time that overflows is not a number of
  the model: the result is \<open>None\<close>.
\<close>

definition Interpolator_Advance ::
  "'z Interpolator_scheme \<Rightarrow> real \<Rightarrow> 'z Interpolator_scheme option" where
  "Interpolator_Advance i elapsedSeconds =
     (case dadd (m_elapsedTime i) elapsedSeconds of
        None \<Rightarrow> None
      | Some e \<Rightarrow> Some (i\<lparr>m_elapsedTime := e\<rparr>))"

definition Interpolator_SetMaxDuration :: "'z Interpolator_scheme \<Rightarrow> real \<Rightarrow> 'z Interpolator_scheme" where
  "Interpolator_SetMaxDuration i maxDuration =
     i\<lparr>m_duration := min (m_duration i) maxDuration\<rparr>"

text \<open>
  \<^verbatim>\<open>GetT\<close>. The difference of the elapsed time and the delay is a double or, on
  overflow, an infinity of the sign of the exact difference; its maximum with 0.0 is then
  0.0 or the infinity, and an infinity divided by the duration is not a number.
\<close>

definition Interpolator_GetT :: "'z Interpolator_scheme \<Rightarrow> real option" where
  "Interpolator_GetT i =
     (if Interpolator_IsFinished i then Some 1
      else case (case dsub (m_elapsedTime i) (m_delay i) of
                   Some d \<Rightarrow> Some (max d 0)
                 | None \<Rightarrow> if m_elapsedTime i - m_delay i < 0 then Some 0 else None) of
             None \<Rightarrow> None
           | Some n \<Rightarrow> ddiv n (m_duration i))"

definition Interpolator_GetElapsedTime :: "'z Interpolator_scheme \<Rightarrow> real" where
  "Interpolator_GetElapsedTime i = m_elapsedTime i"

definition Interpolator_GetDuration :: "'z Interpolator_scheme \<Rightarrow> real" where
  "Interpolator_GetDuration i = m_duration i"

text \<open>A sequence of \<^verbatim>\<open>Advance\<close> calls, one per element of the list, in order.\<close>

fun Interpolator_Advances ::
  "'z Interpolator_scheme \<Rightarrow> real list \<Rightarrow> 'z Interpolator_scheme option" where
  "Interpolator_Advances i [] = Some i"
| "Interpolator_Advances i (dt # dts) =
     (case Interpolator_Advance i dt of
        None \<Rightarrow> None
      | Some i' \<Rightarrow> Interpolator_Advances i' dts)"

text \<open>The value of \<^verbatim>\<open>GetT()\<close> is a number of the interval from 0 to 1.\<close>

definition in_unit_interval :: "real option \<Rightarrow> bool" where
  "in_unit_interval t = (case t of None \<Rightarrow> False | Some r \<Rightarrow> 0 \<le> r \<and> r \<le> 1)"

text \<open>The order of two values of \<^verbatim>\<open>GetT()\<close> that are numbers.\<close>

definition T_le :: "real option \<Rightarrow> real option \<Rightarrow> bool" where
  "T_le s t = (case (s, t) of (Some a, Some b) \<Rightarrow> a \<le> b | _ \<Rightarrow> False)"

subsection \<open>Scale interpolator: the duration\<close>

definition GetScaleDuration :: "real \<Rightarrow> real \<Rightarrow> real option" where
  "GetScaleDuration startScale endScale =
     (let kPixelSpeed = 2 / (3 / 10);
          (startScale', endScale') =
             (if startScale > endScale then (endScale, startScale) else (startScale, endScale))
      in case fdiv endScale' startScale' of
           None \<Rightarrow> None
         | Some ratio \<Rightarrow> CalcAnimSpeedDuration ratio kPixelSpeed)"

subsection \<open>Objects, properties and property values\<close>

text \<open>
  Modelled from the spec: the header \<^verbatim>\<open>animation_system.h\<close> is not among the sources. It
  declares the animated objects (the map plane, the one the source names), the animated
  properties (position, scale and angle; the \<^verbatim>\<open>default\<close> branch of
  \<^verbatim>\<open>FollowAnimation::GetProperty\<close> allows for others) and the value of a property, a
  variant of a double and a point.
\<close>

datatype TObject = MapPlane | OtherObject nat

datatype TProperty = Position | Scale | Angle | OtherProperty nat

datatype PointD = PointD real real

datatype TPropValue = DoubleValue real | PointValue PointD

text \<open>A \<^verbatim>\<open>std::set\<close> is the list of its elements, in the order of iteration.\<close>

type_synonym TObjectProperties = "TProperty list"

type_synonym TAnimObjects = "TObject list"

text \<open>
  The property cache, a \<^verbatim>\<open>std::map\<close>, is an association list: \<open>map_of\<close> is
  \<^verbatim>\<open>find\<close>, \<open>AList.update\<close> is the assignment through \<^verbatim>\<open>operator[]\<close> and
  \<open>AList.delete\<close> is \<^verbatim>\<open>erase\<close>.
\<close>

type_synonym TPropertyCache = "((TObject \<times> TProperty) \<times> TPropValue) list"

subsection \<open>The class Animation\<close>

text \<open>
  \<^verbatim>\<open>Animation\<close> is an abstract class. Its subclasses are a type \<open>'a\<close> of animation
  states together with the methods below: the two flags of the base class and the
  virtual methods the scheduler calls. Every function of the scheduler takes the methods
  as its first argument, so what is proved of it holds for every subclass.
\<close>

record 'a Animation =
  Animation_couldBeInterrupted :: "'a \<Rightarrow> bool"
  Animation_couldBeMixed :: "'a \<Rightarrow> bool"
  Animation_GetObjects :: "'a \<Rightarrow> TAnimObjects"
  Animation_HasObject :: "'a \<Rightarrow> TObject \<Rightarrow> bool"
  Animation_GetProperties :: "'a \<Rightarrow> TObject \<Rightarrow> TObjectProperties"
  Animation_HasProperty :: "'a \<Rightarrow> TObject \<Rightarrow> TProperty \<Rightarrow> bool"
  Animation_Advance :: "'a \<Rightarrow> real \<Rightarrow> 'a"
  Animation_IsFinished :: "'a \<Rightarrow> bool"
  Animation_OnStart :: "'a \<Rightarrow> 'a"
  Animation_OnFinish :: "'a \<Rightarrow> 'a"
  Animation_Interrupt :: "'a \<Rightarrow> 'a"
  Animation_GetProperty :: "'a \<Rightarrow> TObject \<Rightarrow> TProperty \<Rightarrow> TPropValue"

text \<open>
  The calls of virtual methods that change an animation, each with the animation as it
  was when called. The scheduler and the sequence animation keep the list of the calls
  they have made, in order: the list is not a member of the C++ classes, it records
  their effect on animations that are destroyed afterwards.
\<close>

datatype 'a Call =
    AdvanceCall 'a real
  | OnStartCall 'a
  | OnFinishCall 'a
  | InterruptCall 'a

definition set_intersection :: "'b list \<Rightarrow> 'b list \<Rightarrow> 'b list" where
  "set_intersection xs ys = filter (\<lambda>x. x \<in> set ys) xs"

text \<open>
  \<^verbatim>\<open>Animation::CouldBeMixedWith(TObject, TObjectProperties const &)\<close>. Its
  \<^verbatim>\<open>ASSERT(HasObject(object))\<close> holds at its only call, which the caller guards.
\<close>

definition CouldBeMixedWith_properties ::
  "'a Animation \<Rightarrow> 'a \<Rightarrow> TObject \<Rightarrow> TObjectProperties \<Rightarrow> bool" where
  "CouldBeMixedWith_properties V self object properties =
     (if \<not> Animation_couldBeMixed V self then False
      else let selfProperties = Animation_GetProperties V self object;
               intersection = set_intersection selfProperties properties
           in intersection = [])"

text \<open>The loop of \<^verbatim>\<open>Animation::CouldBeMixedWith(Animation const &)\<close> over the objects.\<close>

fun CouldBeMixedWith_objects :: "'a Animation \<Rightarrow> 'a \<Rightarrow> 'a \<Rightarrow> TObject list \<Rightarrow> bool" where
  "CouldBeMixedWith_objects V self animation [] = True"
| "CouldBeMixedWith_objects V self animation (object # objects) =
     (if \<not> Animation_HasObject V self object
      then CouldBeMixedWith_objects V self animation objects
      else if \<not> CouldBeMixedWith_properties V self object
                  (Animation_GetProperties V animation object)
      then False
      else CouldBeMixedWith_objects V self animation objects)"

definition CouldBeMixedWith :: "'a Animation \<Rightarrow> 'a \<Rightarrow> 'a \<Rightarrow> bool" where
  "CouldBeMixedWith V self animation =
     (if \<not> Animation_couldBeMixed V self \<or> Animation_couldBeMixed V animation then False
      else CouldBeMixedWith_objects V self animation (Animation_GetObjects V animation))"

subsection \<open>AnimationSystem\<close>

record 'a AnimationSystem =
  m_animationChain :: "'a list list"
  m_propertyCache :: TPropertyCache
  calls :: "'a Call list"

definition AnimationSystem_new :: "'a AnimationSystem" where
  "AnimationSystem_new = \<lparr>m_animationChain = [], m_propertyCache = [], calls = []\<rparr>"

definition SaveAnimationResult :: "'a Animation \<Rightarrow> 'a \<Rightarrow> TPropertyCache \<Rightarrow> TPropertyCache" where
  "SaveAnimationResult V animation cache =
     fold (\<lambda>object.
            fold (\<lambda>property.
                   AList.update (object, property)
                     (Animation_GetProperty V animation object property))
              (Animation_GetProperties V animation object))
       (Animation_GetObjects V animation) cache"

definition AnimationSystem_PushAnimation ::
  "'a Animation \<Rightarrow> 'a AnimationSystem \<Rightarrow> 'a \<Rightarrow> 'a AnimationSystem" where
  "AnimationSystem_PushAnimation V s animation =
     s\<lparr>m_animationChain := m_animationChain s @ [[Animation_OnStart V animation]],
       calls := calls s @ [OnStartCall animation]\<rparr>"

text \<open>
  The inner loop of \<^verbatim>\<open>AddAnimation\<close> over one list of the chain: the flag
  \<^verbatim>\<open>couldBeMixed\<close>, the list after the erasures, the cache and the calls.
\<close>

fun AddAnimation_list ::
  "'a Animation \<Rightarrow> 'a \<Rightarrow> bool \<Rightarrow> 'a list \<Rightarrow> TPropertyCache \<Rightarrow> 'a Call list \<Rightarrow>
   bool \<times> 'a list \<times> TPropertyCache \<times> 'a Call list" where
  "AddAnimation_list V animation force [] cache cs = (True, [], cache, cs)"
| "AddAnimation_list V animation force (anim # rest) cache cs =
     (if \<not> CouldBeMixedWith V anim animation then
        (if \<not> force \<or> \<not> Animation_couldBeInterrupted V anim
         then (False, anim # rest, cache, cs)
         else AddAnimation_list V animation force rest
                (SaveAnimationResult V (Animation_Interrupt V anim) cache)
                (cs @ [InterruptCall anim]))
      else (case AddAnimation_list V animation force rest cache cs of
              (couldBeMixed, rest', cache', cs') \<Rightarrow> (couldBeMixed, anim # rest', cache', cs')))"

text \<open>
  The outer loop of \<^verbatim>\<open>AddAnimation\<close> over the chain: whether a list took the animation
  (the \<^verbatim>\<open>return\<close> inside the loop), the chain, the cache and the calls.
\<close>

fun AddAnimation_chain ::
  "'a Animation \<Rightarrow> 'a \<Rightarrow> bool \<Rightarrow> 'a list list \<Rightarrow> TPropertyCache \<Rightarrow> 'a Call list \<Rightarrow>
   bool \<times> 'a list list \<times> TPropertyCache \<times> 'a Call list" where
  "AddAnimation_chain V animation force [] cache cs = (False, [], cache, cs)"
| "AddAnimation_chain V animation force (lst # chain) cache cs =
     (case AddAnimation_list V animation force lst cache cs of
        (couldBeMixed, lst', cache', cs') \<Rightarrow>
          if couldBeMixed
          then (True, (lst' @ [Animation_OnStart V animation]) # chain, cache',
                cs' @ [OnStartCall animation])
          else (case AddAnimation_chain V animation force chain cache' cs' of
                  (added, chain', cache'', cs'') \<Rightarrow> (added, lst' # chain', cache'', cs'')))"

definition AnimationSystem_AddAnimation ::
  "'a Animation \<Rightarrow> 'a AnimationSystem \<Rightarrow> 'a \<Rightarrow> bool \<Rightarrow> 'a AnimationSystem" where
  "AnimationSystem_AddAnimation V s animation force =
     (case AddAnimation_chain V animation force
             (m_animationChain s) (m_propertyCache s) (calls s) of
        (added, chain', cache', cs') \<Rightarrow>
          let s' = s\<lparr>m_animationChain := chain', m_propertyCache := cache', calls := cs'\<rparr>
          in if added then s' else AnimationSystem_PushAnimation V s' animation)"

text \<open>The loop of \<^verbatim>\<open>Advance\<close> over the front list: the list, the cache and the calls.\<close>

fun Advance_frontList ::
  "'a Animation \<Rightarrow> real \<Rightarrow> 'a list \<Rightarrow> TPropertyCache \<Rightarrow> 'a Call list \<Rightarrow>
   'a list \<times> TPropertyCache \<times> 'a Call list" where
  "Advance_frontList V elapsedSeconds [] cache cs = ([], cache, cs)"
| "Advance_frontList V elapsedSeconds (anim # rest) cache cs =
     (let anim' = Animation_Advance V anim elapsedSeconds;
          cs1 = cs @ [AdvanceCall anim elapsedSeconds]
      in if Animation_IsFinished V anim'
         then Advance_frontList V elapsedSeconds rest
                (SaveAnimationResult V (Animation_OnFinish V anim') cache)
                (cs1 @ [OnFinishCall anim'])
         else (case Advance_frontList V elapsedSeconds rest cache cs1 of
                 (rest', cache', cs') \<Rightarrow> (anim' # rest', cache', cs')))"

definition AnimationSystem_Advance ::
  "'a Animation \<Rightarrow> 'a AnimationSystem \<Rightarrow> real \<Rightarrow> 'a AnimationSystem" where
  "AnimationSystem_Advance V s elapsedSeconds =
     (case m_animationChain s of
        [] \<Rightarrow> s
      | frontList # chain \<Rightarrow>
          (case Advance_frontList V elapsedSeconds frontList (m_propertyCache s) (calls s) of
             (frontList', cache', cs') \<Rightarrow>
               s\<lparr>m_animationChain := frontList' # chain, m_propertyCache := cache',
                 calls := cs'\<rparr>))"

definition AnimationSystem_AnimationExists ::
  "'a Animation \<Rightarrow> 'a AnimationSystem \<Rightarrow> TObject \<Rightarrow> bool" where
  "AnimationSystem_AnimationExists V s object =
     (case m_animationChain s of
        [] \<Rightarrow> False
      | front # chain \<Rightarrow>
          if list_ex (\<lambda>anim. Animation_HasObject V anim object) front then True
          else if list_ex (\<lambda>it. fst (fst it) = object) (m_propertyCache s) then True
          else False)"

text \<open>The loop of \<^verbatim>\<open>GetProperty\<close> over the front list: the value it returns, if it returns.\<close>

fun GetProperty_front :: "'a Animation \<Rightarrow> 'a list \<Rightarrow> TObject \<Rightarrow> TProperty \<Rightarrow> TPropValue option" where
  "GetProperty_front V [] object property = None"
| "GetProperty_front V (anim # rest) object property =
     (if Animation_HasProperty V anim object property
      then Some (Animation_GetProperty V anim object property)
      else GetProperty_front V rest object property)"

text \<open>
  \<^verbatim>\<open>GetProperty\<close> erases from the cache (a \<^verbatim>\<open>mutable\<close> member): it returns the value and the
  system.
\<close>

definition AnimationSystem_GetProperty ::
  "'a Animation \<Rightarrow> 'a AnimationSystem \<Rightarrow> TObject \<Rightarrow> TProperty \<Rightarrow> TPropValue \<Rightarrow>
   TPropValue \<times> 'a AnimationSystem" where
  "AnimationSystem_GetProperty V s object property current =
     (case (case m_animationChain s of
              [] \<Rightarrow> None
            | front # chain \<Rightarrow> GetProperty_front V front object property) of
        Some v \<Rightarrow> (v, s)
      | None \<Rightarrow>
          (case map_of (m_propertyCache s) (object, property) of
             Some v \<Rightarrow>
               (v, s\<lparr>m_propertyCache := AList.delete (object, property) (m_propertyCache s)\<rparr>)
           | None \<Rightarrow> (current, s)))"

text \<open>A sequence of \<^verbatim>\<open>Advance\<close> calls on the system.\<close>

definition AnimationSystem_Advances ::
  "'a Animation \<Rightarrow> 'a AnimationSystem \<Rightarrow> real list \<Rightarrow> 'a AnimationSystem" where
  "AnimationSystem_Advances V s dts = foldl (AnimationSystem_Advance V) s dts"

text \<open>The animations of the head group; none when the chain is empty.\<close>

definition head_group :: "'a AnimationSystem \<Rightarrow> 'a list" where
  "head_group s = (case m_animationChain s of [] \<Rightarrow> [] | front # chain \<Rightarrow> front)"

subsection \<open>SequenceAnimation\<close>

text \<open>The members are animations of any subclass; the calls made on them are recorded.\<close>

record 'a SequenceAnimation =
  Sequence_animations :: "'a list"
  Sequence_calls :: "'a Call list"

definition SequenceAnimation_AddAnimation ::
  "'a SequenceAnimation \<Rightarrow> 'a \<Rightarrow> 'a SequenceAnimation" where
  "SequenceAnimation_AddAnimation s animation =
     s\<lparr>Sequence_animations := Sequence_animations s @ [animation]\<rparr>"

definition SequenceAnimation_OnStart ::
  "'a Animation \<Rightarrow> 'a SequenceAnimation \<Rightarrow> 'a SequenceAnimation" where
  "SequenceAnimation_OnStart V s =
     (case Sequence_animations s of
        [] \<Rightarrow> s
      | front # rest \<Rightarrow>
          s\<lparr>Sequence_animations := Animation_OnStart V front # rest,
            Sequence_calls := Sequence_calls s @ [OnStartCall front]\<rparr>)"

definition SequenceAnimation_Advance ::
  "'a Animation \<Rightarrow> 'a SequenceAnimation \<Rightarrow> real \<Rightarrow> 'a SequenceAnimation" where
  "SequenceAnimation_Advance V s elapsedSeconds =
     (case Sequence_animations s of
        [] \<Rightarrow> s
      | front # rest \<Rightarrow>
          (let front' = Animation_Advance V front elapsedSeconds;
               cs1 = Sequence_calls s @ [AdvanceCall front elapsedSeconds]
           in if Animation_IsFinished V front'
              then s\<lparr>Sequence_animations := rest,
                     Sequence_calls := cs1 @ [OnFinishCall front']\<rparr>
              else s\<lparr>Sequence_animations := front' # rest, Sequence_calls := cs1\<rparr>))"

text \<open>The calls an operation has added to the calls made before it.\<close>

definition new_calls :: "'a Call list \<Rightarrow> 'a Call list \<Rightarrow> 'a Call list" where
  "new_calls before after = drop (length before) after"

fun is_OnStartCall :: "'a Call \<Rightarrow> bool" where
  "is_OnStartCall (OnStartCall a) = True"
| "is_OnStartCall c = False"

subsection \<open>Typed interpolators\<close>

record PositionInterpolator = Interpolator +
  m_startPosition :: PointD
  m_endPosition :: PointD
  m_position :: PointD

record AngleInterpolator = Interpolator +
  m_startAngle :: real
  m_endAngle :: real
  m_angle :: real

record ScaleInterpolator = Interpolator +
  m_startScale :: real
  m_endScale :: real
  m_scale :: real

text \<open>
  Modelled from the spec: the screen transform \<^verbatim>\<open>ScreenBase\<close> and the geometry of
  \<^verbatim>\<open>m2::PointD\<close> and \<^verbatim>\<open>m2::RectD\<close> are not among the sources. A screen gives its pixel
  rectangle and the projection to pixels; a rectangle has two sizes and two points have a
  distance.
\<close>

datatype RectD = RectD real real real real

fun SizeX :: "RectD \<Rightarrow> real" where
  "SizeX (RectD minX minY maxX maxY) = maxX - minX"

fun SizeY :: "RectD \<Rightarrow> real" where
  "SizeY (RectD minX minY maxX maxY) = maxY - minY"

fun Length :: "PointD \<Rightarrow> PointD \<Rightarrow> real" where
  "Length (PointD x1 y1) (PointD x2 y2) = sqrt ((x1 - x2)\<^sup>2 + (y1 - y2)\<^sup>2)"

record ScreenBase =
  PixelRect :: RectD
  GtoP :: "PointD \<Rightarrow> PointD"

definition GetMoveDuration :: "PointD \<Rightarrow> PointD \<Rightarrow> ScreenBase \<Rightarrow> real option" where
  "GetMoveDuration startPosition endPosition convertor =
     (let kMinMoveDuration = 2 / 10;
          kMinSpeedScalar = 2 / 10;
          kMaxSpeedScalar = 7;
          kEps = 1 / 100000;
          dispPxRect = PixelRect convertor;
          pixelLength = Length (GtoP convertor endPosition) (GtoP convertor startPosition)
      in if pixelLength < kEps then Some 0
         else let minSize = min (SizeX dispPxRect) (SizeY dispPxRect)
              in if pixelLength < kMinSpeedScalar * minSize then Some kMinMoveDuration
                 else let pixelSpeed = kMaxSpeedScalar * minSize
                      in CalcAnimSpeedDuration pixelLength pixelSpeed)"

text \<open>\<^verbatim>\<open>math::pi4\<close> is a quarter of \<open>pi\<close>, which is not zero.\<close>

definition GetRotateDuration :: "real \<Rightarrow> real \<Rightarrow> real" where
  "GetRotateDuration startAngle endAngle = (1 / 2) * \<bar>endAngle - startAngle\<bar> / (pi / 4)"

text \<open>
  The constructors. A duration that is not a number (a division by zero in its
  computation) is outside the model: the constructor then gives \<open>None\<close>.
\<close>

definition PositionInterpolator_new ::
  "real \<Rightarrow> PointD \<Rightarrow> PointD \<Rightarrow> ScreenBase \<Rightarrow> PositionInterpolator option" where
  "PositionInterpolator_new delay startPosition endPosition convertor =
     (case GetMoveDuration startPosition endPosition convertor of
        None \<Rightarrow> None
      | Some duration \<Rightarrow>
          Some \<lparr>m_elapsedTime = 0, m_duration = duration, m_delay = delay,
                m_startPosition = startPosition, m_endPosition = endPosition,
                m_position = startPosition\<rparr>)"

definition AngleInterpolator_new :: "real \<Rightarrow> real \<Rightarrow> real \<Rightarrow> AngleInterpolator" where
  "AngleInterpolator_new delay startAngle endAngle =
     \<lparr>m_elapsedTime = 0, m_duration = GetRotateDuration startAngle endAngle, m_delay = delay,
      m_startAngle = startAngle, m_endAngle = endAngle, m_angle = startAngle\<rparr>"

definition ScaleInterpolator_new :: "real \<Rightarrow> real \<Rightarrow> real \<Rightarrow> ScaleInterpolator option" where
  "ScaleInterpolator_new delay startScale endScale =
     (case GetScaleDuration startScale endScale of
        None \<Rightarrow> None
      | Some duration \<Rightarrow>
          Some \<lparr>m_elapsedTime = 0, m_duration = duration, m_delay = delay,
                m_startScale = startScale, m_endScale = endScale, m_scale = startScale\<rparr>)"

subsection \<open>FollowAnimation\<close>

record FollowAnimation =
  m_couldBeInterrupted :: bool
  m_couldBeMixed :: bool
  m_objects :: TAnimObjects
  m_properties :: TObjectProperties
  m_positionInterpolator :: "PositionInterpolator option"
  m_angleInterpolator :: "AngleInterpolator option"
  m_scaleInterpolator :: "ScaleInterpolator option"

text \<open>The constructor without arguments.\<close>

definition FollowAnimation_empty :: FollowAnimation where
  "FollowAnimation_empty =
     \<lparr>m_couldBeInterrupted = True, m_couldBeMixed = False,
      m_objects = List.insert MapPlane [], m_properties = [],
      m_positionInterpolator = None, m_angleInterpolator = None,
      m_scaleInterpolator = None\<rparr>"

definition FollowAnimation_SetMove ::
  "FollowAnimation \<Rightarrow> PointD \<Rightarrow> PointD \<Rightarrow> ScreenBase \<Rightarrow> FollowAnimation option" where
  "FollowAnimation_SetMove a startPos endPos convertor =
     (if startPos \<noteq> endPos then
        (case PositionInterpolator_new 0 startPos endPos convertor of
           None \<Rightarrow> None
         | Some i \<Rightarrow>
             Some (a\<lparr>m_positionInterpolator := Some i,
                     m_properties := List.insert Position (m_properties a)\<rparr>))
      else Some a)"

definition FollowAnimation_SetRotate ::
  "FollowAnimation \<Rightarrow> real \<Rightarrow> real \<Rightarrow> FollowAnimation option" where
  "FollowAnimation_SetRotate a startAngle endAngle =
     (if startAngle \<noteq> endAngle then
        Some (a\<lparr>m_angleInterpolator := Some (AngleInterpolator_new 0 startAngle endAngle),
                m_properties := List.insert Angle (m_properties a)\<rparr>)
      else Some a)"

definition FollowAnimation_SetScale ::
  "FollowAnimation \<Rightarrow> real \<Rightarrow> real \<Rightarrow> FollowAnimation option" where
  "FollowAnimation_SetScale a startScale endScale =
     (if startScale \<noteq> endScale then
        (case ScaleInterpolator_new 0 startScale endScale of
           None \<Rightarrow> None
         | Some i \<Rightarrow>
             Some (a\<lparr>m_scaleInterpolator := Some i,
                     m_properties := List.insert Scale (m_properties a)\<rparr>))
      else Some a)"

text \<open>The constructor with the endpoints of the move, the rotation and the scaling.\<close>

definition FollowAnimation_new ::
  "PointD \<Rightarrow> PointD \<Rightarrow> real \<Rightarrow> real \<Rightarrow> real \<Rightarrow> real \<Rightarrow> ScreenBase \<Rightarrow> FollowAnimation option" where
  "FollowAnimation_new startPos endPos startAngle endAngle startScale endScale convertor =
     (case FollowAnimation_SetMove FollowAnimation_empty startPos endPos convertor of
        None \<Rightarrow> None
      | Some a1 \<Rightarrow>
          (case FollowAnimation_SetRotate a1 startAngle endAngle of
             None \<Rightarrow> None
           | Some a2 \<Rightarrow> FollowAnimation_SetScale a2 startScale endScale))"

text \<open>
  Modelled from the spec: \<^verbatim>\<open>HasObject\<close> is declared in the header, which is not among the
  sources: the animation has the objects of \<^verbatim>\<open>m_objects\<close>.
\<close>

definition FollowAnimation_HasObject :: "FollowAnimation \<Rightarrow> TObject \<Rightarrow> bool" where
  "FollowAnimation_HasObject a object = (object \<in> set (m_objects a))"

definition FollowAnimation_HasProperty :: "FollowAnimation \<Rightarrow> TObject \<Rightarrow> TProperty \<Rightarrow> bool" where
  "FollowAnimation_HasProperty a object property =
     (FollowAnimation_HasObject a object \<and> property \<in> set (m_properties a))"

definition FollowAnimation_IsFinished :: "FollowAnimation \<Rightarrow> bool" where
  "FollowAnimation_IsFinished a =
     ((case m_angleInterpolator a of None \<Rightarrow> True | Some i \<Rightarrow> Interpolator_IsFinished i)
      \<and> (case m_scaleInterpolator a of None \<Rightarrow> True | Some i \<Rightarrow> Interpolator_IsFinished i)
      \<and> (case m_positionInterpolator a of None \<Rightarrow> True | Some i \<Rightarrow> Interpolator_IsFinished i))"

datatype error = AssertionFailed

text \<open>
  Modelled from the spec: the macro \<^verbatim>\<open>ASSERT\<close> of \<^verbatim>\<open>base/assert.hpp\<close> and the getters
  \<^verbatim>\<open>GetPosition\<close>, \<^verbatim>\<open>GetScale\<close> and \<^verbatim>\<open>GetAngle\<close> of the header are not among the
  sources. A failed assertion is fatal in a debug build and the assertion does nothing in
  other builds; the getters return the members \<^verbatim>\<open>m_position\<close>, \<^verbatim>\<open>m_scale\<close> and
  \<^verbatim>\<open>m_angle\<close>.

  \<^verbatim>\<open>FollowAnimation::GetProperty\<close>, in a debug build (\<open>debug\<close> is true) or not.
\<close>

definition FollowAnimation_GetProperty ::
  "bool \<Rightarrow> FollowAnimation \<Rightarrow> TObject \<Rightarrow> TProperty \<Rightarrow> error + TPropValue" where
  "FollowAnimation_GetProperty debug a object property =
     (if debug \<and> object \<noteq> MapPlane then Inl AssertionFailed
      else case property of
        Position \<Rightarrow>
          (if debug \<and> m_positionInterpolator a = None then Inl AssertionFailed
           else case m_positionInterpolator a of
                  Some i \<Rightarrow> Inr (PointValue (m_position i))
                | None \<Rightarrow> Inr (DoubleValue 0))
      | Scale \<Rightarrow>
          (if debug \<and> m_scaleInterpolator a = None then Inl AssertionFailed
           else case m_scaleInterpolator a of
                  Some i \<Rightarrow> Inr (DoubleValue (m_scale i))
                | None \<Rightarrow> Inr (DoubleValue 0))
      | Angle \<Rightarrow>
          (if debug \<and> m_angleInterpolator a = None then Inl AssertionFailed
           else case m_angleInterpolator a of
                  Some i \<Rightarrow> Inr (DoubleValue (m_angle i))
                | None \<Rightarrow> Inr (DoubleValue 0))
      | OtherProperty n \<Rightarrow>
          (if debug then Inl AssertionFailed else Inr (DoubleValue 0)))"

text \<open>The interpolator of a property is absent: the property was never set.\<close>

definition interpolator_absent :: "FollowAnimation \<Rightarrow> TProperty \<Rightarrow> bool" where
  "interpolator_absent a property =
     (case property of
        Position \<Rightarrow> m_positionInterpolator a = None
      | Scale \<Rightarrow> m_scaleInterpolator a = None
      | Angle \<Rightarrow> m_angleInterpolator a = None
      | OtherProperty n \<Rightarrow> True)"

text \<open>
  A screen of 100 by 100 pixels that projects every point to itself, and the follow
  animation that moves from the origin to the point (10, 0) with no rotation and no
  scaling: the move is 10 pixels long, less than a fifth of the screen, and takes 0.2
  seconds.
\<close>

definition screen100 :: ScreenBase where
  "screen100 = \<lparr>PixelRect = RectD 0 0 100 100, GtoP = (\<lambda>p. p)\<rparr>"

definition followMove :: FollowAnimation where
  "followMove =
     \<lparr>m_couldBeInterrupted = True, m_couldBeMixed = False,
      m_objects = [MapPlane], m_properties = [Position],
      m_positionInterpolator =
        Some \<lparr>m_elapsedTime = 0, m_duration = 1 / 5, m_delay = 0,
              m_startPosition = PointD 0 0, m_endPosition = PointD 10 0,
              m_position = PointD 0 0\<rparr>,
      m_angleInterpolator = None, m_scaleInterpolator = None\<rparr>"

subsection \<open>A subclass for concrete runs\<close>

text \<open>
  A plain subclass of \<^verbatim>\<open>Animation\<close>, on which the scheduler is run at explicit inputs: it
  has the two flags, a set of objects, one set of properties for all its objects, an
  interpolator that gives its progress, one value for all its properties, and it
  remembers that it was started. It is advanced by advancing its interpolator, and left
  as it is should the elapsed time overflow.
\<close>

record PlainAnimation =
  plain_couldBeInterrupted :: bool
  plain_couldBeMixed :: bool
  plain_objects :: TAnimObjects
  plain_properties :: TObjectProperties
  plain_interpolator :: Interpolator
  plain_value :: real
  plain_started :: bool

definition PlainAnimation_methods :: "PlainAnimation Animation" where
  "PlainAnimation_methods =
     \<lparr>Animation_couldBeInterrupted = plain_couldBeInterrupted,
      Animation_couldBeMixed = plain_couldBeMixed,
      Animation_GetObjects = plain_objects,
      Animation_HasObject = (\<lambda>a object. object \<in> set (plain_objects a)),
      Animation_GetProperties = (\<lambda>a object. plain_properties a),
      Animation_HasProperty =
        (\<lambda>a object property.
           object \<in> set (plain_objects a) \<and> property \<in> set (plain_properties a)),
      Animation_Advance =
        (\<lambda>a dt. case Interpolator_Advance (plain_interpolator a) dt of
                   None \<Rightarrow> a
                 | Some i \<Rightarrow> a\<lparr>plain_interpolator := i\<rparr>),
      Animation_IsFinished = (\<lambda>a. Interpolator_IsFinished (plain_interpolator a)),
      Animation_OnStart = (\<lambda>a. a\<lparr>plain_started := True\<rparr>),
      Animation_OnFinish = (\<lambda>a. a),
      Animation_Interrupt = (\<lambda>a. a),
      Animation_GetProperty = (\<lambda>a object property. DoubleValue (plain_value a))\<rparr>"

definition PlainAnimation_new ::
  "bool \<Rightarrow> bool \<Rightarrow> TAnimObjects \<Rightarrow> TObjectProperties \<Rightarrow> real \<Rightarrow> real \<Rightarrow> PlainAnimation" where
  "PlainAnimation_new couldBeInterrupted couldBeMixed objects properties duration v =
     \<lparr>plain_couldBeInterrupted = couldBeInterrupted, plain_couldBeMixed = couldBeMixed,
      plain_objects = objects, plain_properties = properties,
      plain_interpolator = Interpolator_new duration 0, plain_value = v,
      plain_started = False\<rparr>"

text \<open>
  Five animations of this subclass. \<open>animA\<close> and \<open>animB\<close> are mixable and have no object
  in common. \<open>animD\<close> is mixable and interruptible and drives the position and the scale
  of the map plane. \<open>animC\<close> is, like a follow animation, interruptible and not mixable,
  and drives the scale of the map plane. \<open>animE\<close> is neither interruptible nor mixable and
  drives the angle of the map plane.
\<close>

definition animA :: PlainAnimation where
  "animA = PlainAnimation_new True True [MapPlane] [Position] 1 1"

definition animB :: PlainAnimation where
  "animB = PlainAnimation_new True True [OtherObject 1] [Scale] 1 2"

definition animC :: PlainAnimation where
  "animC = PlainAnimation_new True False [MapPlane] [Scale] 1 7"

definition animD :: PlainAnimation where
  "animD = PlainAnimation_new True True [MapPlane] [Position, Scale] 1 5"

definition animE :: PlainAnimation where
  "animE = PlainAnimation_new False False [MapPlane] [Angle] 1 9"

text \<open>A system with the given chain and cache, and no calls made.\<close>

definition system_of :: "'a list list \<Rightarrow> TPropertyCache \<Rightarrow> 'a AnimationSystem" where
  "system_of chain cache = \<lparr>m_animationChain = chain, m_propertyCache = cache, calls = []\<rparr>"

text \<open>
  Three systems built by the functions of the scheduler from the new system. In
  \<open>systemD\<close> the animation \<open>animD\<close> was added and advanced by two seconds, past its end:
  the head group is empty and the cache holds the position and the scale that \<open>animD\<close>
  left. In \<open>systemDA\<close> the animation \<open>animA\<close> was added after that. In \<open>systemDEB\<close> the
  animations \<open>animD\<close>, \<open>animE\<close> and \<open>animB\<close> were added, none by force: \<open>animE\<close> has joined
  the group of \<open>animD\<close> and \<open>animB\<close> has a group of its own.
\<close>

definition systemD :: "PlainAnimation AnimationSystem" where
  "systemD =
     AnimationSystem_Advance PlainAnimation_methods
       (AnimationSystem_AddAnimation PlainAnimation_methods AnimationSystem_new animD False) 2"

definition systemDA :: "PlainAnimation AnimationSystem" where
  "systemDA = AnimationSystem_AddAnimation PlainAnimation_methods systemD animA False"

definition systemDEB :: "PlainAnimation AnimationSystem" where
  "systemDEB =
     AnimationSystem_AddAnimation PlainAnimation_methods
       (AnimationSystem_AddAnimation PlainAnimation_methods
          (AnimationSystem_AddAnimation PlainAnimation_methods AnimationSystem_new animD False)
          animE False)
       animB False"

subsection \<open>Notions used in the statements\<close>

text \<open>
  The systems that the functions of the scheduler build from the new system. \<^verbatim>\<open>GetRect\<close>
  changes the system only through \<^verbatim>\<open>GetProperty\<close>, and \<^verbatim>\<open>AnimationExists\<close> does not
  change it.
\<close>

inductive reachable :: "'a Animation \<Rightarrow> 'a AnimationSystem \<Rightarrow> bool" for V :: "'a Animation" where
  reachable_new: "reachable V AnimationSystem_new"
| reachable_AddAnimation:
    "reachable V s \<Longrightarrow> reachable V (AnimationSystem_AddAnimation V s animation force)"
| reachable_PushAnimation:
    "reachable V s \<Longrightarrow> reachable V (AnimationSystem_PushAnimation V s animation)"
| reachable_Advance:
    "reachable V s \<Longrightarrow> reachable V (AnimationSystem_Advance V s elapsedSeconds)"
| reachable_GetProperty:
    "reachable V s \<Longrightarrow>
       reachable V (snd (AnimationSystem_GetProperty V s object property current))"

fun is_AdvanceCall :: "'a Call \<Rightarrow> bool" where
  "is_AdvanceCall (AdvanceCall a dt) = True"
| "is_AdvanceCall c = False"

text \<open>
  A call made while the animations \<open>xs\<close> are advanced by \<open>dt\<close>: \<^verbatim>\<open>Advance(dt)\<close> on one of
  them, or \<^verbatim>\<open>OnFinish\<close> on one of them as advanced.
\<close>

fun call_on :: "'a Animation \<Rightarrow> real \<Rightarrow> 'a list \<Rightarrow> 'a Call \<Rightarrow> bool" where
  "call_on V dt xs (AdvanceCall x e) = (x \<in> set xs \<and> e = dt)"
| "call_on V dt xs (OnFinishCall x) = (x \<in> set (map (\<lambda>y. Animation_Advance V y dt) xs))"
| "call_on V dt xs (OnStartCall x) = False"
| "call_on V dt xs (InterruptCall x) = False"

text \<open>The cache has an entry only if the chain has a group.\<close>

definition cache_needs_chain :: "'a AnimationSystem \<Rightarrow> bool" where
  "cache_needs_chain s = (m_animationChain s = [] \<longrightarrow> m_propertyCache s = [])"

section \<open>Properties\<close>

subsection \<open>Rounding\<close>

lemma rne_of_int [simp]: "rne (of_int k) = k"
  by (simp add: rne_def)

lemma rne_mono: "y \<le> z \<Longrightarrow> rne y \<le> rne z"
proof -
  assume yz: "y \<le> z"
  have fl: "\<lfloor>y\<rfloor> \<le> \<lfloor>z\<rfloor>" using yz by (rule floor_mono)
  have ub: "rne y \<le> \<lfloor>y\<rfloor> + 1" by (simp add: rne_def Let_def)
  have lb: "\<lfloor>z\<rfloor> \<le> rne z" by (simp add: rne_def Let_def)
  show ?thesis
  proof (cases "\<lfloor>y\<rfloor> = \<lfloor>z\<rfloor>")
    case True
    with yz show ?thesis by (auto simp: rne_def Let_def)
  next
    case False
    with fl have "\<lfloor>y\<rfloor> + 1 \<le> \<lfloor>z\<rfloor>" by simp
    with ub lb show ?thesis by linarith
  qed
qed

lemma ulp_pos [simp]: "0 < ulp x"
  by (simp add: ulp_def)

lemma ulp_nonneg [simp]: "0 \<le> ulp x"
  by (simp add: ulp_def)

lemma ulp_neq0 [simp]: "ulp x \<noteq> 0"
  by (simp add: ulp_def)

lemma abs_ulp [simp]: "\<bar>ulp x\<bar> = ulp x"
  by (simp add: ulp_def)

lemma expo_ge [simp]: "- 1022 \<le> expo x"
  by (simp add: expo_def)

lemma two_powr_int: "0 \<le> d \<Longrightarrow> (2::real) powr of_int d = of_int (2 ^ nat d)"
  by (simp add: powr_real_of_int)

text \<open>A value with a mantissa of at most 53 bits and an exponent in range is kept.\<close>

lemma rnd_exact:
  assumes x: "x = of_int k * 2 powr (of_int e - 52)" and k: "\<bar>k\<bar> \<le> 2 ^ 53" and e: "- 1022 \<le> e"
  shows "rnd x = x"
proof (cases "x = 0")
  case True
  then show ?thesis by (simp add: rnd_def)
next
  case False
  then have k0: "k \<noteq> 0" using x by auto
  have ax: "\<bar>x\<bar> = of_int \<bar>k\<bar> * 2 powr (of_int e - 52)"
    using x by (simp add: abs_mult)
  have "of_int \<bar>k\<bar> \<le> (2::real) ^ 53" using k by (metis of_int_le_iff of_int_numeral of_int_power)
  then have "\<bar>x\<bar> \<le> 2 ^ 53 * 2 powr (of_int e - 52)"
    unfolding ax by (simp add: mult_right_mono)
  also have "\<dots> = 2 powr (of_int e + 1)"
  proof -
    have "(2::real) ^ 53 = 2 powr 53" by (simp add: powr_realpow [symmetric])
    then have "(2::real) ^ 53 * 2 powr (of_int e - 52) = 2 powr (53 + (of_int e - 52))"
      by (simp only: powr_add)
    also have "53 + (real_of_int e - 52) = of_int e + 1" by simp
    finally show ?thesis .
  qed
  finally have ub: "\<bar>x\<bar> \<le> 2 powr (of_int e + 1)" .
  have xpos: "0 < \<bar>x\<bar>" using False by simp
  have le: "expo x \<le> e + 1"
  proof -
    have "log 2 \<bar>x\<bar> \<le> of_int e + 1"
      using ub xpos by (simp add: log_le_iff)
    then have "\<lfloor>log 2 \<bar>x\<bar>\<rfloor> \<le> e + 1" by linarith
    with e show ?thesis by (simp add: expo_def)
  qed
  have int: "\<exists>m::int. x / ulp x = of_int m"
  proof (cases "expo x \<le> e")
    case True
    define d where "d = e - expo x"
    have d: "0 \<le> d" using True by (simp add: d_def)
    define ex where "ex = expo x"
    have u: "ulp x = 2 powr (of_int ex - 52)"
      unfolding ulp_def ex_def by simp
    have "x / ulp x = of_int k * (2 powr (of_int e - 52) / 2 powr (of_int ex - 52))"
      unfolding u using x by simp
    also have "2 powr (of_int e - 52) / 2 powr (of_int ex - 52) = (2::real) powr of_int d"
      by (simp add: d_def ex_def powr_diff [symmetric])
    also have "\<dots> = of_int (2 ^ nat d)" using d by (rule two_powr_int)
    finally have "x / ulp x = of_int (k * 2 ^ nat d)" by simp
    then show ?thesis ..
  next
    case False
    with le have ex: "expo x = e + 1" by simp
    have "e + 1 > - 1022" using e by simp
    with ex have "\<lfloor>log 2 \<bar>x\<bar>\<rfloor> = e + 1" by (auto simp: expo_def max_def split: if_splits)
    then have "2 powr (of_int (e + 1)) \<le> \<bar>x\<bar>"
      using xpos by (simp add: floor_log_eq_powr_iff)
    with ub have eq: "\<bar>x\<bar> = 2 powr (of_int e + 1)" by simp
    have "real_of_int \<bar>k\<bar> * 2 powr (of_int e - 52) = 2 powr (of_int e + 1)"
      using eq ax by simp
    then have "real_of_int \<bar>k\<bar> = 2 powr (of_int e + 1) / 2 powr (of_int e - 52)"
      by (simp add: field_simps)
    also have "\<dots> = 2 powr 53" by (simp add: powr_diff [symmetric])
    also have "\<dots> = (2::real) ^ 53" by (simp add: powr_realpow [symmetric])
    finally have ak: "(of_int \<bar>k\<bar> :: real) = 2 ^ 53" .
    have u: "ulp x = 2 powr (of_int e + 1 - 52)"
      unfolding ulp_def ex by simp
    have "x / ulp x = of_int k * (2 powr (of_int e - 52) / 2 powr (of_int e + 1 - 52))"
      unfolding u using x by simp
    also have "2 powr (of_int e - 52) / 2 powr (of_int e + 1 - 52) = (2::real) powr (- 1)"
      by (simp add: powr_diff [symmetric])
    also have "\<dots> = 1 / 2" by (simp add: powr_minus_divide)
    finally have h: "x / ulp x = of_int k / 2" by simp
    from ak have "\<bar>k\<bar> = 2 ^ 53" by (metis of_int_eq_iff of_int_numeral of_int_power)
    then have "even \<bar>k\<bar>" by simp
    then have "even k" by simp
    then have "k = 2 * (k div 2)" by simp
    then have "(of_int k :: real) / 2 = of_int (k div 2)"
      by (metis nonzero_mult_div_cancel_left of_int_mult of_int_numeral zero_neq_numeral)
    with h show ?thesis by auto
  qed
  then obtain m :: int where m: "x / ulp x = of_int m" ..
  have "ulp x \<noteq> 0" by (simp add: ulp_def)
  then have "x = (x / ulp x) * ulp x" by simp
  then have "x = of_int m * ulp x" unfolding m .
  then show ?thesis using False m by (simp add: rnd_def)
qed

lemma abs_less_next_binade: "x \<noteq> 0 \<Longrightarrow> \<bar>x\<bar> < 2 powr (of_int (expo x) + 1)"
proof -
  assume "x \<noteq> 0"
  then have pos: "0 < \<bar>x\<bar>" by simp
  have "\<lfloor>log 2 \<bar>x\<bar>\<rfloor> \<le> expo x" by (simp add: expo_def)
  then have "log 2 \<bar>x\<bar> < of_int (expo x) + 1" by linarith
  then show ?thesis using pos by (simp add: log_less_iff)
qed

lemma p53: "(2::real) powr (of_int e + 1) / 2 powr (of_int e - 52) = 2 ^ 53"
proof -
  have "(2::real) powr (of_int e + 1) / 2 powr (of_int e - 52) = 2 powr 53"
    by (simp add: powr_diff [symmetric])
  also have "\<dots> = 2 ^ 53" by (simp add: powr_realpow [symmetric])
  finally show ?thesis .
qed

lemma p52: "(2::real) powr (of_int e) / 2 powr (of_int e - 52) = 2 ^ 52"
proof -
  have "(2::real) powr (of_int e) / 2 powr (of_int e - 52) = 2 powr 52"
    by (simp add: powr_diff [symmetric])
  also have "\<dots> = 2 ^ 52" by (simp add: powr_realpow [symmetric])
  finally show ?thesis .
qed

lemma scaled_bound: "x \<noteq> 0 \<Longrightarrow> \<bar>x / ulp x\<bar> < 2 ^ 53"
proof -
  assume "x \<noteq> 0"
  then have "\<bar>x\<bar> < 2 powr (of_int (expo x) + 1)" by (rule abs_less_next_binade)
  then have "\<bar>x\<bar> / ulp x < 2 powr (of_int (expo x) + 1) / ulp x"
    by (simp add: divide_strict_right_mono)
  also have "\<dots> = 2 ^ 53" unfolding ulp_def by (rule p53)
  finally have "\<bar>x\<bar> / ulp x < 2 ^ 53" .
  then show ?thesis by (simp add: abs_divide)
qed

lemma mantissa_bound: "\<bar>rne (x / ulp x)\<bar> \<le> 2 ^ 53"
proof (cases "x = 0")
  case True
  then show ?thesis by (simp add: rne_def)
next
  case False
  then have b: "\<bar>x / ulp x\<bar> < 2 ^ 53" by (rule scaled_bound)
  from b have "x / ulp x < 2 ^ 53" and "- (2 ^ 53) < x / ulp x"
    by (simp_all only: abs_less_iff) linarith+
  then have u: "x / ulp x \<le> of_int (2 ^ 53)" and l: "of_int (- (2 ^ 53)) \<le> x / ulp x"
    by simp_all
  have 1: "rne (x / ulp x) \<le> 2 ^ 53" using rne_mono [OF u] by (simp only: rne_of_int)
  have 2: "- (2 ^ 53) \<le> rne (x / ulp x)" using rne_mono [OF l] by (simp only: rne_of_int)
  from 1 2 show ?thesis by simp
qed

lemma rnd_idem: "rnd (rnd x) = rnd x"
proof (cases "x = 0")
  case True
  then show ?thesis by (simp add: rnd_def)
next
  case False
  then have "rnd x = of_int (rne (x / ulp x)) * 2 powr (of_int (expo x) - 52)"
    by (simp add: rnd_def ulp_def)
  then show ?thesis
    using mantissa_bound [of x] expo_ge [of x] by (rule rnd_exact)
qed

lemma rne_nonneg: "0 \<le> y \<Longrightarrow> 0 \<le> rne y"
  using rne_mono [of 0 y] rne_of_int [of 0] by simp

lemma rne_nonpos: "y \<le> 0 \<Longrightarrow> rne y \<le> 0"
  using rne_mono [of y 0] rne_of_int [of 0] by simp

lemma rnd_nonneg: "0 \<le> x \<Longrightarrow> 0 \<le> rnd x"
proof -
  assume "0 \<le> x"
  then have "0 \<le> x / ulp x" by (rule divide_nonneg_pos) simp
  then have "0 \<le> rne (x / ulp x)" by (rule rne_nonneg)
  then have "0 \<le> real_of_int (rne (x / ulp x)) * ulp x" by simp
  then show ?thesis by (simp add: rnd_def)
qed

lemma rnd_nonpos: "x \<le> 0 \<Longrightarrow> rnd x \<le> 0"
proof -
  assume "x \<le> 0"
  then have "x / ulp x \<le> 0" by (rule divide_nonpos_pos) simp
  then have "rne (x / ulp x) \<le> 0" by (rule rne_nonpos)
  then have "real_of_int (rne (x / ulp x)) * ulp x \<le> 0"
    by (simp add: mult_le_0_iff)
  then show ?thesis by (simp add: rnd_def)
qed

lemma expo_mono: "0 < x \<Longrightarrow> x \<le> y \<Longrightarrow> expo x \<le> expo y"
proof -
  assume "0 < x" "x \<le> y"
  then have "log 2 \<bar>x\<bar> \<le> log 2 \<bar>y\<bar>" by simp
  then have "\<lfloor>log 2 \<bar>x\<bar>\<rfloor> \<le> \<lfloor>log 2 \<bar>y\<bar>\<rfloor>" by (rule floor_mono)
  then show ?thesis by (simp add: expo_def)
qed

lemma rnd_upper: "0 < x \<Longrightarrow> rnd x \<le> 2 powr (of_int (expo x) + 1)"
proof -
  assume x: "0 < x"
  have "rne (x / ulp x) \<le> 2 ^ 53" using mantissa_bound [of x] by simp
  then have "real_of_int (rne (x / ulp x)) \<le> 2 ^ 53"
    by (metis of_int_le_iff of_int_numeral of_int_power)
  then have "rnd x \<le> 2 ^ 53 * ulp x" using x by (simp add: rnd_def mult_right_mono)
  also have "2 ^ 53 * ulp x = 2 powr (of_int (expo x) + 1)"
    using p53 [of "expo x"] by (simp add: ulp_def field_simps)
  finally show ?thesis .
qed

lemma rnd_lower: "0 < x \<Longrightarrow> - 1022 < expo x \<Longrightarrow> 2 powr (of_int (expo x)) \<le> rnd x"
proof -
  assume x: "0 < x" and n: "- 1022 < expo x"
  then have "\<lfloor>log 2 \<bar>x\<bar>\<rfloor> = expo x" by (auto simp: expo_def max_def split: if_splits)
  then have "2 powr (of_int (expo x)) \<le> x" using x by (simp add: floor_log_eq_powr_iff)
  then have "2 powr (of_int (expo x)) / ulp x \<le> x / ulp x"
    by (rule divide_right_mono) simp
  then have "of_int (2 ^ 52) \<le> x / ulp x" using p52 [of "expo x"] by (simp add: ulp_def)
  then have "2 ^ 52 \<le> rne (x / ulp x)" using rne_mono rne_of_int by metis
  then have "(2::real) ^ 52 \<le> real_of_int (rne (x / ulp x))"
    by (metis of_int_le_iff of_int_numeral of_int_power)
  then have "2 ^ 52 * ulp x \<le> rnd x" using x by (simp add: rnd_def mult_right_mono)
  moreover have "2 ^ 52 * ulp x = 2 powr (of_int (expo x))"
    using p52 [of "expo x"] by (simp add: ulp_def field_simps)
  ultimately show ?thesis by simp
qed

lemma rnd_mono: "0 \<le> x \<Longrightarrow> x \<le> y \<Longrightarrow> rnd x \<le> rnd y"
proof -
  assume x0: "0 \<le> x" and xy: "x \<le> y"
  show ?thesis
  proof (cases "x = 0")
    case True
    have "0 \<le> y" using x0 xy by simp
    then have "0 \<le> rnd y" by (rule rnd_nonneg)
    moreover have "rnd x = 0" using True by (simp add: rnd_def)
    ultimately show ?thesis by simp
  next
    case False
    then have x: "0 < x" and y: "0 < y" using x0 xy by simp_all
    have le: "expo x \<le> expo y" using x xy by (rule expo_mono)
    show ?thesis
    proof (cases "expo x = expo y")
      case True
      then have u: "ulp x = ulp y" by (simp add: ulp_def)
      have "x / ulp y \<le> y / ulp y" using xy by (rule divide_right_mono) simp
      then have "rne (x / ulp y) \<le> rne (y / ulp y)" by (rule rne_mono)
      then have "real_of_int (rne (x / ulp y)) * ulp y \<le> real_of_int (rne (y / ulp y)) * ulp y"
        by (simp add: mult_right_mono)
      then show ?thesis using x y u by (simp add: rnd_def)
    next
      case False
      with le have lt: "expo x + 1 \<le> expo y" by simp
      then have n: "- 1022 < expo y" using expo_ge [of x] by linarith
      have "rnd x \<le> 2 powr (of_int (expo x) + 1)" using x by (rule rnd_upper)
      also have "\<dots> \<le> 2 powr (of_int (expo y))"
      proof -
        have "real_of_int (expo x) + 1 \<le> real_of_int (expo y)" using lt by linarith
        then show ?thesis by simp
      qed
      also have "\<dots> \<le> rnd y" using y n by (rule rnd_lower)
      finally show ?thesis .
    qed
  qed
qed

subsection \<open>The progress of an interpolator\<close>

lemma rnd_0 [simp]: "rnd 0 = 0"
  by (simp add: rnd_def)

lemma rnd_1 [simp]: "rnd 1 = 1"
  by (rule rnd_exact [of 1 "2 ^ 52" 0]) (simp_all add: powr_minus powr_realpow [symmetric])

lemma is_double_0 [simp]: "is_double 0"
  by (simp add: is_double_def)

lemma dadd_0_right: "is_double x \<Longrightarrow> dadd x 0 = Some x"
  by (simp add: dadd_def is_double_def finite_double_def)

lemma dsub_0_right: "is_double x \<Longrightarrow> dsub x 0 = Some x"
  by (simp add: dsub_def is_double_def finite_double_def)

lemma dadd_is_double: "dadd x y = Some z \<Longrightarrow> is_double z"
  by (auto simp: dadd_def finite_double_def is_double_def rnd_idem split: if_splits)

lemma Advance_fields:
  assumes "Interpolator_Advance i dt = Some i'"
  shows "m_duration i' = m_duration i" and "m_delay i' = m_delay i"
    and "is_double (m_elapsedTime i')" and "m_elapsedTime i' = rnd (m_elapsedTime i + dt)"
proof -
  from assms obtain e where e: "dadd (m_elapsedTime i) dt = Some e"
    and i': "i' = i\<lparr>m_elapsedTime := e\<rparr>"
    by (auto simp: Interpolator_Advance_def split: option.splits)
  show "m_duration i' = m_duration i" "m_delay i' = m_delay i" by (simp_all add: i')
  show "is_double (m_elapsedTime i')" using dadd_is_double [OF e] by (simp add: i')
  show "m_elapsedTime i' = rnd (m_elapsedTime i + dt)"
    using e by (auto simp: i' dadd_def finite_double_def split: if_splits)
qed

lemma Advance_grows:
  assumes "Interpolator_Advance i dt = Some i'" and "is_double (m_elapsedTime i)"
    and "0 \<le> m_elapsedTime i" and "0 \<le> dt"
  shows "m_elapsedTime i \<le> m_elapsedTime i'"
proof -
  have "rnd (m_elapsedTime i) \<le> rnd (m_elapsedTime i + dt)"
    using assms(3,4) by (intro rnd_mono) simp_all
  then show ?thesis
    using assms(2) Advance_fields(4) [OF assms(1)] by (simp add: is_double_def)
qed

lemma Advances_invariant:
  assumes "Interpolator_Advances i dts = Some j" and "\<forall>dt \<in> set dts. 0 \<le> dt"
    and "is_double (m_elapsedTime i)" and "0 \<le> m_elapsedTime i"
  shows "m_duration j = m_duration i \<and> m_delay j = m_delay i \<and>
         is_double (m_elapsedTime j) \<and> 0 \<le> m_elapsedTime j"
  using assms
proof (induction dts arbitrary: i)
  case Nil
  then show ?case by simp
next
  case (Cons dt dts)
  from Cons.prems(1) obtain i' where a: "Interpolator_Advance i dt = Some i'"
    and r: "Interpolator_Advances i' dts = Some j"
    by (auto split: option.splits)
  have dt: "0 \<le> dt" and dts: "\<forall>dt \<in> set dts. 0 \<le> dt" using Cons.prems(2) by simp_all
  have g: "m_elapsedTime i \<le> m_elapsedTime i'"
    using a Cons.prems(3,4) dt by (rule Advance_grows)
  have "m_duration j = m_duration i' \<and> m_delay j = m_delay i' \<and>
         is_double (m_elapsedTime j) \<and> 0 \<le> m_elapsedTime j"
    using r dts Advance_fields(3) [OF a] g Cons.prems(4) by (intro Cons.IH) simp_all
  then show ?case using Advance_fields(1,2) [OF a] by simp
qed

lemma finite_double_unit: "0 \<le> r \<Longrightarrow> r \<le> 1 \<Longrightarrow> finite_double r = Some r"
proof -
  assume "0 \<le> r" "r \<le> 1"
  moreover have "(1::real) < 2 ^ 1024" by (rule one_less_power) simp_all
  ultimately show ?thesis by (simp add: finite_double_def)
qed

lemma IsFinished_no_delay:
  "is_double (m_duration i) \<Longrightarrow> m_delay i = 0 \<Longrightarrow>
     Interpolator_IsFinished i = (m_duration i < m_elapsedTime i)"
  by (simp add: Interpolator_IsFinished_def dadd_0_right)

lemma GetT_no_delay:
  assumes "is_double (m_duration i)" and "m_delay i = 0" and "0 < m_duration i"
    and "is_double (m_elapsedTime i)" and "0 \<le> m_elapsedTime i"
  shows "Interpolator_GetT i =
     (if m_duration i < m_elapsedTime i then Some 1
      else Some (rnd (m_elapsedTime i / m_duration i)))"
    and "m_elapsedTime i \<le> m_duration i \<Longrightarrow>
           0 \<le> rnd (m_elapsedTime i / m_duration i) \<and> rnd (m_elapsedTime i / m_duration i) \<le> 1"
proof -
  show b: "0 \<le> rnd (m_elapsedTime i / m_duration i) \<and> rnd (m_elapsedTime i / m_duration i) \<le> 1"
    if le: "m_elapsedTime i \<le> m_duration i"
  proof -
    have q0: "0 \<le> m_elapsedTime i / m_duration i" using assms(3,5) by simp
    have q1: "m_elapsedTime i / m_duration i \<le> 1" using assms(3) le by simp
    have "rnd (m_elapsedTime i / m_duration i) \<le> rnd 1" using q0 q1 by (rule rnd_mono)
    then show ?thesis using rnd_nonneg [OF q0] by simp
  qed
  show "Interpolator_GetT i =
     (if m_duration i < m_elapsedTime i then Some 1
      else Some (rnd (m_elapsedTime i / m_duration i)))"
  proof (cases "m_duration i < m_elapsedTime i")
    case True
    then show ?thesis
      using assms(1,2) by (simp add: Interpolator_GetT_def IsFinished_no_delay)
  next
    case False
    then have le: "m_elapsedTime i \<le> m_duration i" by simp
    have "ddiv (m_elapsedTime i) (m_duration i) = Some (rnd (m_elapsedTime i / m_duration i))"
      using assms(3) b [OF le] by (simp add: ddiv_def finite_double_unit)
    then show ?thesis
      using False assms(1,2,4,5)
      by (simp add: Interpolator_GetT_def IsFinished_no_delay dsub_0_right max_def)
  qed
qed

lemma rnd_int: "\<bar>k\<bar> \<le> 2 ^ 53 \<Longrightarrow> rnd (of_int k) = of_int k"
  by (rule rnd_exact [of _ k 52]) simp_all

lemma finite_double_small: "\<bar>r\<bar> \<le> 2 ^ 54 \<Longrightarrow> finite_double r = Some r"
proof -
  assume "\<bar>r\<bar> \<le> 2 ^ 54"
  moreover have "(2::real) ^ 54 < 2 ^ 1024" by (rule power_strict_increasing) simp_all
  ultimately show ?thesis by (simp add: finite_double_def)
qed

lemma is_double_int: "\<bar>k\<bar> \<le> 2 ^ 53 \<Longrightarrow> is_double (of_int k)"
proof -
  assume k: "\<bar>k\<bar> \<le> 2 ^ 53"
  then have "\<bar>real_of_int k\<bar> \<le> 2 ^ 53"
    by (metis of_int_abs of_int_le_iff of_int_numeral of_int_power)
  also have "(2::real) ^ 53 < 2 ^ 1024" by (rule power_strict_increasing) simp_all
  finally show ?thesis using rnd_int [OF k] by (simp add: is_double_def)
qed

lemma is_double_1 [simp]: "is_double 1"
  using is_double_int [of 1] by simp

lemma is_double_2 [simp]: "is_double 2"
  using is_double_int [of 2] by simp

lemma is_double_half [simp]: "is_double (1 / 2)"
proof -
  have "rnd (1 / 2) = 1 / 2"
    by (rule rnd_exact [of _ 1 51]) (simp_all add: powr_minus_divide)
  moreover have "(1::real) < 2 ^ 1024" by (rule one_less_power) simp_all
  ultimately show ?thesis by (simp add: is_double_def)
qed

lemma Advance_from_zero:
  "is_double dt \<Longrightarrow> m_elapsedTime i = 0 \<Longrightarrow>
     Interpolator_Advance i dt = Some (i\<lparr>m_elapsedTime := dt\<rparr>)"
  by (simp add: Interpolator_Advance_def dadd_def is_double_def finite_double_def)

lemma GetT_finished: "Interpolator_IsFinished j \<Longrightarrow> Interpolator_GetT j = Some 1"
  by (simp add: Interpolator_GetT_def)

lemma GetT_zero_duration:
  assumes "m_duration j = 0" and "is_double (m_delay j)" and "\<not> Interpolator_IsFinished j"
  shows "Interpolator_GetT j = None"
proof -
  have "dadd 0 (m_delay j) = Some (m_delay j)"
    using assms(2) by (simp add: dadd_def is_double_def finite_double_def)
  with assms(1,3) have le: "m_elapsedTime j - m_delay j \<le> 0"
    by (simp add: Interpolator_IsFinished_def)
  then have r: "rnd (m_elapsedTime j - m_delay j) \<le> 0" by (rule rnd_nonpos)
  have "(case dsub (m_elapsedTime j) (m_delay j) of
           Some d \<Rightarrow> Some (max d 0)
         | None \<Rightarrow> if m_elapsedTime j - m_delay j < 0 then Some 0 else None) = Some 0"
  proof (cases "dsub (m_elapsedTime j) (m_delay j)")
    case None
    then have "m_elapsedTime j - m_delay j \<noteq> 0"
      by (auto simp: dsub_def finite_double_def split: if_splits)
    with le None show ?thesis by simp
  next
    case (Some d)
    then have "d = rnd (m_elapsedTime j - m_delay j)"
      by (auto simp: dsub_def finite_double_def split: if_splits)
    with r Some show ?thesis by (simp add: max_def)
  qed
  then show ?thesis using assms(1,3) by (simp add: Interpolator_GetT_def ddiv_def)
qed

lemma GetT_run_no_delay:
  assumes "is_double duration" and "0 < duration"
    and "\<forall>dt \<in> set dts. 0 \<le> dt" and "0 \<le> dt"
    and "Interpolator_Advances (Interpolator_new duration 0) dts = Some i"
    and "Interpolator_Advance i dt = Some i'"
  shows "in_unit_interval (Interpolator_GetT i) \<and>
         T_le (Interpolator_GetT i) (Interpolator_GetT i') \<and>
         (duration < m_elapsedTime i \<longrightarrow> Interpolator_GetT i = Some 1)"
proof -
  have inv: "m_duration i = duration \<and> m_delay i = 0 \<and>
         is_double (m_elapsedTime i) \<and> 0 \<le> m_elapsedTime i"
    using Advances_invariant [OF assms(5,3)] by (simp add: Interpolator_new_def)
  have g: "m_elapsedTime i \<le> m_elapsedTime i'"
    using assms(6) inv assms(4) by (intro Advance_grows) simp_all
  have inv': "m_duration i' = duration \<and> m_delay i' = 0 \<and>
         is_double (m_elapsedTime i') \<and> 0 \<le> m_elapsedTime i'"
    using Advance_fields [OF assms(6)] inv g by simp
  note T = GetT_no_delay [of i] GetT_no_delay [of i']
  have Ti: "Interpolator_GetT i =
     (if duration < m_elapsedTime i then Some 1 else Some (rnd (m_elapsedTime i / duration)))"
    using GetT_no_delay(1) [of i] inv assms(1,2) by simp
  have Ti': "Interpolator_GetT i' =
     (if duration < m_elapsedTime i' then Some 1 else Some (rnd (m_elapsedTime i' / duration)))"
    using GetT_no_delay(1) [of i'] inv' assms(1,2) by simp
  have bi: "0 \<le> rnd (m_elapsedTime i / duration) \<and> rnd (m_elapsedTime i / duration) \<le> 1"
    if "m_elapsedTime i \<le> duration"
    using GetT_no_delay(2) [of i] inv assms(1,2) that by simp
  have bi': "0 \<le> rnd (m_elapsedTime i' / duration) \<and> rnd (m_elapsedTime i' / duration) \<le> 1"
    if "m_elapsedTime i' \<le> duration"
    using GetT_no_delay(2) [of i'] inv' assms(1,2) that by simp
  have 1: "in_unit_interval (Interpolator_GetT i)"
    using bi by (simp add: Ti in_unit_interval_def)
  have 2: "T_le (Interpolator_GetT i) (Interpolator_GetT i')"
  proof (cases "duration < m_elapsedTime i'")
    case True
    then show ?thesis using bi by (simp add: Ti Ti' T_le_def)
  next
    case False
    then have le: "m_elapsedTime i \<le> duration" "\<not> duration < m_elapsedTime i" using g by simp_all
    have "0 \<le> m_elapsedTime i / duration" using inv assms(2) by simp
    moreover have "m_elapsedTime i / duration \<le> m_elapsedTime i' / duration"
      using g assms(2) by (simp add: divide_right_mono)
    ultimately have "rnd (m_elapsedTime i / duration) \<le> rnd (m_elapsedTime i' / duration)"
      by (rule rnd_mono)
    then show ?thesis using False le by (simp add: Ti Ti' T_le_def)
  qed
  have 3: "Interpolator_GetT i = Some 1" if "duration < m_elapsedTime i"
    using that by (simp add: Ti)
  from 1 2 3 show ?thesis by blast
qed

lemma rnd_dyadic:
  assumes "\<bar>k\<bar> \<le> 2 ^ 53" and "n \<le> 1074"
  shows "rnd (of_int k / 2 ^ n) = of_int k / 2 ^ n"
proof (rule rnd_exact [of _ k "52 - int n"])
  have "(2::real) powr (of_int (52 - int n) - 52) = 2 powr (- real n)" by simp
  also have "\<dots> = 1 / 2 ^ n" by (simp add: powr_minus_divide powr_realpow)
  finally show "real_of_int k / 2 ^ n = real_of_int k * 2 powr (real_of_int (52 - int n) - 52)"
    by simp
  show "\<bar>k\<bar> \<le> 2 ^ 53" by fact
  show "- 1022 \<le> 52 - int n" using assms(2) by simp
qed

lemma rnd_even: "\<bar>k\<bar> \<le> 2 ^ 53 \<Longrightarrow> rnd (2 * of_int k) = 2 * of_int k"
  by (rule rnd_exact [of _ k 53]) simp_all

lemma rnd_tie: "rnd 9007199254740995 = 9007199254740996"
proof -
  have "\<lfloor>log 2 \<bar>9007199254740995 :: real\<bar>\<rfloor> = 53"
    by (subst floor_log_eq_powr_iff) simp_all
  then have "expo 9007199254740995 = 53" by (simp add: expo_def)
  then have u: "ulp 9007199254740995 = 2" by (simp add: ulp_def)
  have "rne (9007199254740995 / 2) = 4503599627370498"
    by (simp add: rne_def Let_def)
  then show ?thesis by (simp add: rnd_def u)
qed




subsection \<open>The duration of a scaling\<close>

text \<open>
  Claim C3, as the code has it. \<^verbatim>\<open>GetScaleDuration(a, b)\<close> equals
  \<^verbatim>\<open>GetScaleDuration(b, a)\<close> for all scales \<open>a\<close> and \<open>b\<close>. For equal scales the duration
  is not zero: the ratio of a scale other than zero to itself is 1, which is not almost
  equal to 0, so the duration is 1 divided by the speed 2 / 0.3, that is 0.15; for the
  scale zero the ratio is a division by zero.
\<close>

theorem C3_scale_duration:
  "GetScaleDuration a b = GetScaleDuration b a \<and>
   (s \<noteq> 0 \<longrightarrow> GetScaleDuration s s = Some (3 / 20)) \<and>
   GetScaleDuration 0 0 = None"
proof (intro conjI impI)
  show "GetScaleDuration a b = GetScaleDuration b a"
    by (cases "a = b") (auto simp: GetScaleDuration_def)
  show "GetScaleDuration s s = Some (3 / 20)" if "s \<noteq> 0"
    using that
    by (simp add: GetScaleDuration_def fdiv_def CalcAnimSpeedDuration_def AlmostEqualAbs_def)
  show "GetScaleDuration 0 0 = None"
    by (simp add: GetScaleDuration_def fdiv_def)
qed

text \<open>
  The theorem at the scales 1 and 2: doubling the scale takes 0.3 seconds in either
  direction, and keeping the scale 2 takes 0.15 seconds.
\<close>

theorem C3_scale_duration_witness:
  "(2::real) \<noteq> 0 \<and> GetScaleDuration 2 2 = Some (3 / 20) \<and>
   GetScaleDuration 1 2 = GetScaleDuration 2 1 \<and> GetScaleDuration 1 2 = Some (3 / 10)"
proof -
  have "GetScaleDuration 1 2 = Some (3 / 10)"
    by (simp add: GetScaleDuration_def fdiv_def CalcAnimSpeedDuration_def AlmostEqualAbs_def)
  then show ?thesis
    using C3_scale_duration [of 1 2 2] by simp
qed

text \<open>
  Claim C3 as the specification states it, \<^verbatim>\<open>GetScaleDuration(s, s) == 0\<close>, fails at the
  scale 1.
\<close>

theorem C3_equal_scales_counterexample:
  "GetScaleDuration 1 1 = Some (3 / 20) \<and> GetScaleDuration 1 1 \<noteq> Some 0"
  by (simp add: GetScaleDuration_def fdiv_def CalcAnimSpeedDuration_def AlmostEqualAbs_def)

subsection \<open>The cache and the calls under the scheduler\<close>

lemma map_of_fold_update:
  "map_of (fold (\<lambda>property. AList.update (object, property) (f property)) ps c) k =
     (if fst k = object \<and> snd k \<in> set ps then Some (f (snd k)) else map_of c k)"
proof (induction ps arbitrary: c)
  case Nil
  then show ?case by simp
next
  case (Cons p ps)
  then show ?case by (cases k) (auto simp: update_conv')
qed

lemma map_of_fold_objects:
  "map_of (fold (\<lambda>object. fold (\<lambda>property. AList.update (object, property) (f object property))
                      (g object)) os c) k =
     (if fst k \<in> set os \<and> snd k \<in> set (g (fst k)) then Some (f (fst k) (snd k))
      else map_of c k)"
proof (induction os arbitrary: c)
  case Nil
  then show ?case by simp
next
  case (Cons x xs)
  then show ?case by (auto simp: map_of_fold_update)
qed

lemma map_of_SaveAnimationResult:
  "map_of (SaveAnimationResult V a c) (object, property) =
     (if object \<in> set (Animation_GetObjects V a) \<and>
         property \<in> set (Animation_GetProperties V a object)
      then Some (Animation_GetProperty V a object property)
      else map_of c (object, property))"
  unfolding SaveAnimationResult_def by (simp add: map_of_fold_objects)

lemma SaveAnimationResult_keeps_keys:
  "map_of c k \<noteq> None \<Longrightarrow> map_of (SaveAnimationResult V a c) k \<noteq> None"
  by (cases k) (simp add: map_of_SaveAnimationResult)

lemma AddAnimation_list_grows:
  "AddAnimation_list V a force xs c cs = (b, xs', c', cs') \<Longrightarrow>
     (\<exists>ds. cs' = cs @ ds) \<and> (\<forall>k. map_of c k \<noteq> None \<longrightarrow> map_of c' k \<noteq> None)"
proof (induction xs arbitrary: c cs b xs' c' cs')
  case Nil
  then show ?case by simp
next
  case (Cons x xs)
  show ?case
  proof (cases "CouldBeMixedWith V x a")
    case True
    obtain m ys d ds where r: "AddAnimation_list V a force xs c cs = (m, ys, d, ds)"
      by (cases "AddAnimation_list V a force xs c cs") auto
    with True Cons.prems have "d = c'" "ds = cs'" by simp_all
    with Cons.IH [OF r] show ?thesis by simp
  next
    case False
    show ?thesis
    proof (cases "\<not> force \<or> \<not> Animation_couldBeInterrupted V x")
      case True
      with False Cons.prems have "c' = c" "cs' = cs" by auto
      then show ?thesis by simp
    next
      case stop: False
      with False Cons.prems have
        "AddAnimation_list V a force xs
           (SaveAnimationResult V (Animation_Interrupt V x) c) (cs @ [InterruptCall x])
         = (b, xs', c', cs')"
        by simp
      from Cons.IH [OF this] obtain ds where
        ds: "cs' = (cs @ [InterruptCall x]) @ ds"
        and k: "\<forall>k. map_of (SaveAnimationResult V (Animation_Interrupt V x) c) k \<noteq> None
                  \<longrightarrow> map_of c' k \<noteq> None"
        by blast
      have "cs' = cs @ (InterruptCall x # ds)" using ds by simp
      moreover have "\<forall>k. map_of c k \<noteq> None \<longrightarrow> map_of c' k \<noteq> None"
        using k by (meson SaveAnimationResult_keeps_keys)
      ultimately show ?thesis by blast
    qed
  qed
qed

lemma AddAnimation_chain_grows:
  "AddAnimation_chain V a force ch c cs = (b, ch', c', cs') \<Longrightarrow>
     (\<exists>ds. cs' = cs @ ds) \<and> (\<forall>k. map_of c k \<noteq> None \<longrightarrow> map_of c' k \<noteq> None)"
proof (induction ch arbitrary: c cs b ch' c' cs')
  case Nil
  then show ?case by simp
next
  case (Cons g gs)
  obtain m g1 c1 cs1 where l: "AddAnimation_list V a force g c cs = (m, g1, c1, cs1)"
    by (cases "AddAnimation_list V a force g c cs") auto
  from AddAnimation_list_grows [OF l] obtain ds1 where
    ds1: "cs1 = cs @ ds1" and k1: "\<forall>k. map_of c k \<noteq> None \<longrightarrow> map_of c1 k \<noteq> None"
    by blast
  show ?case
  proof (cases m)
    case True
    with l Cons.prems have "c' = c1" "cs' = cs1 @ [OnStartCall a]" by simp_all
    with ds1 k1 show ?thesis by simp
  next
    case False
    obtain m2 gs' d2 ds2 where r: "AddAnimation_chain V a force gs c1 cs1 = (m2, gs', d2, ds2)"
      by (cases "AddAnimation_chain V a force gs c1 cs1") auto
    with False l Cons.prems have e: "d2 = c'" "ds2 = cs'" by simp_all
    from Cons.IH [OF r] obtain ds where
      ds: "ds2 = cs1 @ ds" and k: "\<forall>k. map_of c1 k \<noteq> None \<longrightarrow> map_of d2 k \<noteq> None"
      by blast
    have "cs' = cs @ (ds1 @ ds)" using ds ds1 e by simp
    moreover have "\<forall>k. map_of c k \<noteq> None \<longrightarrow> map_of c' k \<noteq> None"
      using k k1 e by simp
    ultimately show ?thesis by blast
  qed
qed

lemma new_calls_append [simp]: "new_calls cs (cs @ ds) = ds"
  by (simp add: new_calls_def)

lemmas plain_defs = PlainAnimation_methods_def PlainAnimation_new_def Interpolator_new_def
  Advance_from_zero IsFinished_no_delay system_of_def
  animA_def animB_def animC_def animD_def animE_def

subsection \<open>Two mixable animations\<close>

lemma AddAnimation_new:
  "AnimationSystem_AddAnimation V AnimationSystem_new A force =
     \<lparr>m_animationChain = [[Animation_OnStart V A]], m_propertyCache = [],
      calls = [OnStartCall A]\<rparr>"
  by (simp add: AnimationSystem_AddAnimation_def AnimationSystem_new_def
      AnimationSystem_PushAnimation_def)

lemma CouldBeMixedWith_mixable_other:
  "Animation_couldBeMixed V B \<Longrightarrow> \<not> CouldBeMixedWith V A B"
  by (simp add: CouldBeMixedWith_def)

text \<open>
  The test is not symmetric: an animation that is not mixable, added after a mixable one
  that has none of its objects, joins the group of the mixable one.
\<close>

lemma CouldBeMixedWith_objects_disjoint:
  "\<forall>object \<in> set objects. \<not> Animation_HasObject V A object \<Longrightarrow>
     CouldBeMixedWith_objects V A B objects"
  by (induction objects) simp_all

lemma unmixable_joins_mixable:
  assumes "Animation_couldBeMixed V (Animation_OnStart V A)"
    and "\<not> Animation_couldBeMixed V B"
    and "\<forall>object \<in> set (Animation_GetObjects V B).
           \<not> Animation_HasObject V (Animation_OnStart V A) object"
  shows "m_animationChain
           (AnimationSystem_AddAnimation V
              (AnimationSystem_AddAnimation V AnimationSystem_new A False) B False)
         = [[Animation_OnStart V A, Animation_OnStart V B]]"
proof -
  have "CouldBeMixedWith V (Animation_OnStart V A) B"
    using assms by (simp add: CouldBeMixedWith_def CouldBeMixedWith_objects_disjoint)
  then show ?thesis
    unfolding AddAnimation_new by (simp add: AnimationSystem_AddAnimation_def)
qed

text \<open>
  Claim C1 does not hold of the code. \<^verbatim>\<open>CouldBeMixedWith(Animation const &)\<close> answers no
  whenever the animation given to it is mixable, so a mixable animation \<open>B\<close> added without
  force after any animation \<open>A\<close> to the empty system is never put into the group of
  \<open>A\<close>: the chain has two groups, the group of \<open>B\<close> is not the head, and the next
  \<^verbatim>\<open>Advance(dt)\<close> advances \<open>A\<close> and no other animation.
\<close>

theorem C1_mixable_pair_is_separated:
  assumes "Animation_couldBeMixed V B"
  shows "let s2 = AnimationSystem_AddAnimation V
                    (AnimationSystem_AddAnimation V AnimationSystem_new A False) B False;
             s3 = AnimationSystem_Advance V s2 dt;
             A' = Animation_OnStart V A
         in m_animationChain s2 = [[A'], [Animation_OnStart V B]] \<and>
            tl (m_animationChain s3) = [[Animation_OnStart V B]] \<and>
            filter is_AdvanceCall (new_calls (calls s2) (calls s3)) = [AdvanceCall A' dt]"
proof -
  have n: "\<not> CouldBeMixedWith V (Animation_OnStart V A) B"
    using assms by (rule CouldBeMixedWith_mixable_other)
  define s2 where "s2 = AnimationSystem_AddAnimation V
                    (AnimationSystem_AddAnimation V AnimationSystem_new A False) B False"
  have s2: "s2 = \<lparr>m_animationChain = [[Animation_OnStart V A], [Animation_OnStart V B]],
      m_propertyCache = [], calls = [OnStartCall A, OnStartCall B]\<rparr>"
    unfolding s2_def AddAnimation_new using n
    by (simp add: AnimationSystem_AddAnimation_def AnimationSystem_PushAnimation_def)
  have 1: "m_animationChain s2 = [[Animation_OnStart V A], [Animation_OnStart V B]]"
    by (simp add: s2)
  have 2: "tl (m_animationChain (AnimationSystem_Advance V s2 dt)) = [[Animation_OnStart V B]]"
    by (simp add: s2 AnimationSystem_Advance_def Let_def split: prod.splits)
  have 3: "filter is_AdvanceCall
      (new_calls (calls s2) (calls (AnimationSystem_Advance V s2 dt)))
      = [AdvanceCall (Animation_OnStart V A) dt]"
    by (simp add: s2 AnimationSystem_Advance_def Let_def new_calls_def)
  show ?thesis
    unfolding Let_def s2_def [symmetric] using 1 2 3 by simp
qed

text \<open>
  The theorem at \<open>animA\<close> and \<open>animB\<close>, both mixable and with no object in common: after
  the two additions and \<^verbatim>\<open>Advance(0.5)\<close> the second group holds \<open>animB\<close>, started and not
  advanced, and the only \<^verbatim>\<open>Advance\<close> call was made on \<open>animA\<close>.
\<close>

theorem C1_mixable_pair_is_separated_witness:
  "Animation_couldBeMixed PlainAnimation_methods animA \<and>
   Animation_couldBeMixed PlainAnimation_methods animB \<and>
   set (Animation_GetObjects PlainAnimation_methods animA)
     \<inter> set (Animation_GetObjects PlainAnimation_methods animB) = {} \<and>
   m_animationChain
     (AnimationSystem_AddAnimation PlainAnimation_methods
        (AnimationSystem_AddAnimation PlainAnimation_methods AnimationSystem_new animA False)
        animB False)
     = [[animA\<lparr>plain_started := True\<rparr>], [animB\<lparr>plain_started := True\<rparr>]] \<and>
   tl (m_animationChain
     (AnimationSystem_Advance PlainAnimation_methods
        (AnimationSystem_AddAnimation PlainAnimation_methods
           (AnimationSystem_AddAnimation PlainAnimation_methods AnimationSystem_new animA False)
           animB False) (1 / 2)))
     = [[animB\<lparr>plain_started := True\<rparr>]] \<and>
   calls
     (AnimationSystem_Advance PlainAnimation_methods
        (AnimationSystem_AddAnimation PlainAnimation_methods
           (AnimationSystem_AddAnimation PlainAnimation_methods AnimationSystem_new animA False)
           animB False) (1 / 2))
     = [OnStartCall animA, OnStartCall animB,
        AdvanceCall (animA\<lparr>plain_started := True\<rparr>) (1 / 2)]"
proof -
  have h: "Animation_couldBeMixed PlainAnimation_methods animB"
    by (simp add: plain_defs)
  have a: "Animation_couldBeMixed PlainAnimation_methods animA"
    "set (Animation_GetObjects PlainAnimation_methods animA)
       \<inter> set (Animation_GetObjects PlainAnimation_methods animB) = {}"
    by (simp_all add: plain_defs)
  have i: "Animation_OnStart PlainAnimation_methods animA = animA\<lparr>plain_started := True\<rparr>"
    "Animation_OnStart PlainAnimation_methods animB = animB\<lparr>plain_started := True\<rparr>"
    by (simp_all add: PlainAnimation_methods_def)
  have c: "calls
     (AnimationSystem_Advance PlainAnimation_methods
        (AnimationSystem_AddAnimation PlainAnimation_methods
           (AnimationSystem_AddAnimation PlainAnimation_methods AnimationSystem_new animA False)
           animB False) (1 / 2))
     = [OnStartCall animA, OnStartCall animB,
        AdvanceCall (animA\<lparr>plain_started := True\<rparr>) (1 / 2)]"
    by (simp add: AnimationSystem_new_def AnimationSystem_AddAnimation_def CouldBeMixedWith_def
        AnimationSystem_PushAnimation_def AnimationSystem_Advance_def plain_defs)
  show ?thesis
    using C1_mixable_pair_is_separated [OF h, of animA "1 / 2"] h a c
    by (simp add: Let_def i)
qed

subsection \<open>The example systems\<close>

lemmas system_defs = AnimationSystem_new_def AnimationSystem_AddAnimation_def
  AnimationSystem_PushAnimation_def AnimationSystem_Advance_def CouldBeMixedWith_def
  CouldBeMixedWith_properties_def set_intersection_def SaveAnimationResult_def

lemma systemD_value:
  "systemD =
     \<lparr>m_animationChain = [[]],
      m_propertyCache = [((MapPlane, Position), DoubleValue 5), ((MapPlane, Scale), DoubleValue 5)],
      calls =
        [OnStartCall animD, AdvanceCall (animD\<lparr>plain_started := True\<rparr>) 2,
         OnFinishCall
           (animD\<lparr>plain_started := True,
                  plain_interpolator := \<lparr>m_elapsedTime = 2, m_duration = 1, m_delay = 0\<rparr>\<rparr>)]\<rparr>"
  by (simp add: systemD_def system_defs plain_defs)

lemma systemDA_value:
  "systemDA =
     \<lparr>m_animationChain = [[animA\<lparr>plain_started := True\<rparr>]],
      m_propertyCache = [((MapPlane, Position), DoubleValue 5), ((MapPlane, Scale), DoubleValue 5)],
      calls =
        [OnStartCall animD, AdvanceCall (animD\<lparr>plain_started := True\<rparr>) 2,
         OnFinishCall
           (animD\<lparr>plain_started := True,
                  plain_interpolator := \<lparr>m_elapsedTime = 2, m_duration = 1, m_delay = 0\<rparr>\<rparr>),
         OnStartCall animA]\<rparr>"
  unfolding systemDA_def systemD_value
  by (simp add: system_defs PlainAnimation_methods_def)

lemma systemDEB_value:
  "systemDEB =
     \<lparr>m_animationChain =
        [[animD\<lparr>plain_started := True\<rparr>, animE\<lparr>plain_started := True\<rparr>],
         [animB\<lparr>plain_started := True\<rparr>]],
      m_propertyCache = [],
      calls = [OnStartCall animD, OnStartCall animE, OnStartCall animB]\<rparr>"
  by (simp add: systemDEB_def system_defs plain_defs)

lemma reachable_systemD: "reachable PlainAnimation_methods systemD"
  unfolding systemD_def by (intro reachable.intros)

lemma reachable_systemDA: "reachable PlainAnimation_methods systemDA"
  unfolding systemDA_def by (intro reachable.intros reachable_systemD)

lemma reachable_systemDEB: "reachable PlainAnimation_methods systemDEB"
  unfolding systemDEB_def by (intro reachable.intros)

subsection \<open>AnimationExists\<close>

text \<open>
  When the chain has a group, \<^verbatim>\<open>AnimationExists(object)\<close> is true exactly when an animation
  of the head group has the object or the cache has an entry for the object.
\<close>

lemma list_ex_cache_key:
  "list_ex (\<lambda>it. fst (fst it) = object) cache \<longleftrightarrow>
     (\<exists>property. map_of cache (object, property) \<noteq> None)"
proof
  assume "list_ex (\<lambda>it. fst (fst it) = object) cache"
  then obtain it where "it \<in> set cache" "fst (fst it) = object"
    by (auto simp: list_ex_iff)
  then have "(object, snd (fst it)) \<in> fst ` set cache"
    by (metis image_eqI prod.collapse)
  then have "map_of cache (object, snd (fst it)) \<noteq> None"
    by (simp add: map_of_eq_None_iff)
  then show "\<exists>property. map_of cache (object, property) \<noteq> None" ..
next
  assume "\<exists>property. map_of cache (object, property) \<noteq> None"
  then obtain property v where "map_of cache (object, property) = Some v" by auto
  then have "((object, property), v) \<in> set cache" by (rule map_of_SomeD)
  then show "list_ex (\<lambda>it. fst (fst it) = object) cache"
    unfolding list_ex_iff by force
qed

lemma AnimationExists_nonempty_chain:
  assumes "m_animationChain s \<noteq> []"
  shows "AnimationSystem_AnimationExists V s object \<longleftrightarrow>
     list_ex (\<lambda>anim. Animation_HasObject V anim object) (head_group s) \<or>
     (\<exists>property. map_of (m_propertyCache s) (object, property) \<noteq> None)"
  using assms
  by (cases "m_animationChain s")
     (simp_all add: AnimationSystem_AnimationExists_def head_group_def list_ex_cache_key)

text \<open>
  No function of the system removes a group from the chain: from the new system on, the
  cache has an entry only if the chain has a group.
\<close>

lemma cache_needs_chain_new: "cache_needs_chain AnimationSystem_new"
  by (simp add: cache_needs_chain_def AnimationSystem_new_def)

lemma AddAnimation_chain_nonempty:
  "m_animationChain (AnimationSystem_AddAnimation V s animation force) \<noteq> []"
  by (cases "m_animationChain s")
     (auto simp: AnimationSystem_AddAnimation_def AnimationSystem_PushAnimation_def Let_def
        split: prod.splits if_splits)

lemma cache_needs_chain_AddAnimation:
  "cache_needs_chain (AnimationSystem_AddAnimation V s animation force)"
  by (simp add: cache_needs_chain_def AddAnimation_chain_nonempty)

lemma cache_needs_chain_Advance:
  "cache_needs_chain s \<Longrightarrow> cache_needs_chain (AnimationSystem_Advance V s dt)"
  by (cases "m_animationChain s")
     (auto simp: cache_needs_chain_def AnimationSystem_Advance_def split: prod.splits)

lemma cache_needs_chain_GetProperty:
  "cache_needs_chain s \<Longrightarrow>
     cache_needs_chain (snd (AnimationSystem_GetProperty V s object property current))"
  by (cases "m_animationChain s")
     (auto simp: cache_needs_chain_def AnimationSystem_GetProperty_def split: option.splits)

lemma cache_needs_chain_PushAnimation:
  "cache_needs_chain (AnimationSystem_PushAnimation V s animation)"
  by (simp add: cache_needs_chain_def AnimationSystem_PushAnimation_def)

lemma reachable_cache_needs_chain: "reachable V s \<Longrightarrow> cache_needs_chain s"
  by (induction rule: reachable.induct)
     (simp_all add: cache_needs_chain_new cache_needs_chain_AddAnimation
        cache_needs_chain_PushAnimation cache_needs_chain_Advance cache_needs_chain_GetProperty)



subsection \<open>GetProperty\<close>

lemma GetProperty_front_None:
  "GetProperty_front V xs object property = None \<longleftrightarrow>
     \<not> list_ex (\<lambda>anim. Animation_HasProperty V anim object property) xs"
  by (induction xs) auto

lemma GetProperty_head:
  "(case m_animationChain s of [] \<Rightarrow> None
    | front # chain \<Rightarrow> GetProperty_front V front object property)
   = GetProperty_front V (head_group s) object property"
  by (simp add: head_group_def split: list.splits)

lemma GetProperty_cases:
  "AnimationSystem_GetProperty V s object property current =
     (case GetProperty_front V (head_group s) object property of
        Some v \<Rightarrow> (v, s)
      | None \<Rightarrow>
          (case map_of (m_propertyCache s) (object, property) of
             Some v \<Rightarrow>
               (v, s\<lparr>m_propertyCache := AList.delete (object, property) (m_propertyCache s)\<rparr>)
           | None \<Rightarrow> (current, s)))"
  unfolding AnimationSystem_GetProperty_def GetProperty_head ..

text \<open>
  The caller's value is returned for every such value exactly when no animation of the
  head group has the property of the object and the cache has no entry for the pair.
  When no animation of the head group has it and the cache holds a value for the pair,
  that value is returned and the entry is erased, so the same call repeated at once
  returns the caller's value and leaves the system as it is.
\<close>

lemma GetProperty_fallback_all:
  "((\<forall>current. fst (AnimationSystem_GetProperty V s object property current) = current) \<longleftrightarrow>
      \<not> list_ex (\<lambda>anim. Animation_HasProperty V anim object property) (head_group s) \<and>
      map_of (m_propertyCache s) (object, property) = None) \<and>
   (\<not> list_ex (\<lambda>anim. Animation_HasProperty V anim object property) (head_group s) \<and>
    map_of (m_propertyCache s) (object, property) = Some v \<longrightarrow>
      AnimationSystem_GetProperty V s object property current =
        (v, s\<lparr>m_propertyCache := AList.delete (object, property) (m_propertyCache s)\<rparr>) \<and>
      map_of (m_propertyCache (snd (AnimationSystem_GetProperty V s object property current)))
        (object, property) = None \<and>
      AnimationSystem_GetProperty V
        (snd (AnimationSystem_GetProperty V s object property current)) object property current
        = (current, snd (AnimationSystem_GetProperty V s object property current)))"
proof (intro conjI impI)
  let ?none = "\<not> list_ex (\<lambda>anim. Animation_HasProperty V anim object property) (head_group s)"
  show "(\<forall>current. fst (AnimationSystem_GetProperty V s object property current) = current) \<longleftrightarrow>
      ?none \<and> map_of (m_propertyCache s) (object, property) = None"
  proof
    assume all: "\<forall>current. fst (AnimationSystem_GetProperty V s object property current) = current"
    show "?none \<and> map_of (m_propertyCache s) (object, property) = None"
    proof (rule ccontr)
      assume "\<not> (?none \<and> map_of (m_propertyCache s) (object, property) = None)"
      then have neg: "GetProperty_front V (head_group s) object property \<noteq> None \<or>
          map_of (m_propertyCache s) (object, property) \<noteq> None"
        by (simp add: GetProperty_front_None)
      have "\<exists>w. \<forall>current.
          fst (AnimationSystem_GetProperty V s object property current) = w"
      proof (cases "GetProperty_front V (head_group s) object property")
        case (Some w)
        then show ?thesis by (simp add: GetProperty_cases)
      next
        case None
        with neg obtain y where "map_of (m_propertyCache s) (object, property) = Some y"
          by auto
        with None show ?thesis by (simp add: GetProperty_cases)
      qed
      then obtain w where w: "\<forall>current.
          fst (AnimationSystem_GetProperty V s object property current) = w" ..
      from all w have "DoubleValue 0 = w" and "DoubleValue 1 = w" by metis+
      then have "DoubleValue 0 = DoubleValue 1" by (rule trans [OF _ sym])
      then show False by simp
    qed
  next
    assume "?none \<and> map_of (m_propertyCache s) (object, property) = None"
    then show "\<forall>current. fst (AnimationSystem_GetProperty V s object property current) = current"
      by (simp add: GetProperty_cases GetProperty_front_None [symmetric])
  qed
next
  assume a: "\<not> list_ex (\<lambda>anim. Animation_HasProperty V anim object property) (head_group s) \<and>
    map_of (m_propertyCache s) (object, property) = Some v"
  then have f: "GetProperty_front V (head_group s) object property = None"
    by (simp add: GetProperty_front_None)
  show r: "AnimationSystem_GetProperty V s object property current =
        (v, s\<lparr>m_propertyCache := AList.delete (object, property) (m_propertyCache s)\<rparr>)"
    using a f by (simp add: GetProperty_cases)
  have h: "head_group (s\<lparr>m_propertyCache := AList.delete (object, property) (m_propertyCache s)\<rparr>)
      = head_group s"
    by (simp add: head_group_def)
  show "map_of (m_propertyCache (snd (AnimationSystem_GetProperty V s object property current)))
        (object, property) = None"
    by (simp add: r delete_conv')
  show "AnimationSystem_GetProperty V
        (snd (AnimationSystem_GetProperty V s object property current)) object property current
        = (current, snd (AnimationSystem_GetProperty V s object property current))"
    unfolding r by (simp add: GetProperty_cases h f delete_conv')
qed

text \<open>
  Claim C5, as the code has it. \<^verbatim>\<open>GetProperty(object, property, current)\<close> returns the
  caller's value exactly when no animation of the head group has the property of the
  object and the cache has no entry for the pair, or the value that the first such
  animation or else the cache holds for the pair is the caller's value itself. So the
  caller's value is returned whatever it is exactly when no animation of the head group
  has the property and the cache has no entry. When no animation of the head group has
  the property and the cache holds a value for the pair, that value is returned and the
  entry is erased, so the same call repeated at once returns the caller's value and
  leaves the system as it is.
\<close>

theorem C5_GetProperty_fallback:
  "(fst (AnimationSystem_GetProperty V s object property current) = current \<longleftrightarrow>
      (\<not> list_ex (\<lambda>anim. Animation_HasProperty V anim object property) (head_group s) \<and>
       map_of (m_propertyCache s) (object, property) = None) \<or>
      GetProperty_front V (head_group s) object property = Some current \<or>
      (\<not> list_ex (\<lambda>anim. Animation_HasProperty V anim object property) (head_group s) \<and>
       map_of (m_propertyCache s) (object, property) = Some current)) \<and>
   ((\<forall>current. fst (AnimationSystem_GetProperty V s object property current) = current) \<longleftrightarrow>
      \<not> list_ex (\<lambda>anim. Animation_HasProperty V anim object property) (head_group s) \<and>
      map_of (m_propertyCache s) (object, property) = None) \<and>
   (\<not> list_ex (\<lambda>anim. Animation_HasProperty V anim object property) (head_group s) \<and>
    map_of (m_propertyCache s) (object, property) = Some v \<longrightarrow>
      AnimationSystem_GetProperty V s object property current =
        (v, s\<lparr>m_propertyCache := AList.delete (object, property) (m_propertyCache s)\<rparr>) \<and>
      map_of (m_propertyCache (snd (AnimationSystem_GetProperty V s object property current)))
        (object, property) = None \<and>
      AnimationSystem_GetProperty V
        (snd (AnimationSystem_GetProperty V s object property current)) object property current
        = (current, snd (AnimationSystem_GetProperty V s object property current)))"
proof -
  have 1: "fst (AnimationSystem_GetProperty V s object property current) = current \<longleftrightarrow>
      (\<not> list_ex (\<lambda>anim. Animation_HasProperty V anim object property) (head_group s) \<and>
       map_of (m_propertyCache s) (object, property) = None) \<or>
      GetProperty_front V (head_group s) object property = Some current \<or>
      (\<not> list_ex (\<lambda>anim. Animation_HasProperty V anim object property) (head_group s) \<and>
       map_of (m_propertyCache s) (object, property) = Some current)"
    unfolding GetProperty_front_None [symmetric]
    by (cases "GetProperty_front V (head_group s) object property";
        cases "map_of (m_propertyCache s) (object, property)")
       (auto simp: GetProperty_cases)
  show ?thesis
    using 1 GetProperty_fallback_all [of V s object property v current] by blast
qed

text \<open>
  The theorem at \<open>systemDA\<close>, whose head group holds \<open>animA\<close>, which drives the position
  only, and whose cache holds the scale 5 that \<open>animD\<close> left: the first read of the scale
  of the map plane returns 5 and erases the entry, the second returns the caller's 9.
\<close>

theorem C5_GetProperty_fallback_witness:
  "reachable PlainAnimation_methods systemDA \<and>
   \<not> list_ex (\<lambda>anim. Animation_HasProperty PlainAnimation_methods anim MapPlane Scale)
       (head_group systemDA) \<and>
   map_of (m_propertyCache systemDA) (MapPlane, Scale) = Some (DoubleValue 5) \<and>
   AnimationSystem_GetProperty PlainAnimation_methods systemDA MapPlane Scale (DoubleValue 9)
     = (DoubleValue 5,
        systemDA\<lparr>m_propertyCache := [((MapPlane, Position), DoubleValue 5)]\<rparr>) \<and>
   AnimationSystem_GetProperty PlainAnimation_methods
     (systemDA\<lparr>m_propertyCache := [((MapPlane, Position), DoubleValue 5)]\<rparr>)
     MapPlane Scale (DoubleValue 9)
     = (DoubleValue 9, systemDA\<lparr>m_propertyCache := [((MapPlane, Position), DoubleValue 5)]\<rparr>)"
proof -
  have h1: "\<not> list_ex (\<lambda>anim. Animation_HasProperty PlainAnimation_methods anim MapPlane Scale)
       (head_group systemDA)"
    by (simp add: systemDA_value head_group_def plain_defs)
  have h2: "map_of (m_propertyCache systemDA) (MapPlane, Scale) = Some (DoubleValue 5)"
    by (simp add: systemDA_value)
  have d: "systemDA\<lparr>m_propertyCache := AList.delete (MapPlane, Scale) (m_propertyCache systemDA)\<rparr>
      = systemDA\<lparr>m_propertyCache := [((MapPlane, Position), DoubleValue 5)]\<rparr>"
    by (simp add: systemDA_value)
  note t = C5_GetProperty_fallback
      [where V = PlainAnimation_methods and s = systemDA and object = MapPlane
         and property = Scale and v = "DoubleValue 5" and current = "DoubleValue 9"]
  from t h1 h2 have r1: "AnimationSystem_GetProperty PlainAnimation_methods systemDA
       MapPlane Scale (DoubleValue 9)
     = (DoubleValue 5, systemDA\<lparr>m_propertyCache := [((MapPlane, Position), DoubleValue 5)]\<rparr>)"
    by (simp add: d)
  from t h1 h2 have "AnimationSystem_GetProperty PlainAnimation_methods
       (snd (AnimationSystem_GetProperty PlainAnimation_methods systemDA
              MapPlane Scale (DoubleValue 9)))
       MapPlane Scale (DoubleValue 9) =
      (DoubleValue 9,
       snd (AnimationSystem_GetProperty PlainAnimation_methods systemDA
             MapPlane Scale (DoubleValue 9)))"
    by blast
  then have r2: "AnimationSystem_GetProperty PlainAnimation_methods
     (systemDA\<lparr>m_propertyCache := [((MapPlane, Position), DoubleValue 5)]\<rparr>)
     MapPlane Scale (DoubleValue 9)
     = (DoubleValue 9, systemDA\<lparr>m_propertyCache := [((MapPlane, Position), DoubleValue 5)]\<rparr>)"
    unfolding r1 by simp
  show ?thesis
    using reachable_systemDA h1 h2 r1 r2 by simp
qed

text \<open>
  Claim C5 does not hold of the code as it is worded: in \<open>systemD\<close> the head group is
  empty and the cache holds the scale 5 of the map plane, and \<^verbatim>\<open>GetProperty\<close> with the
  caller's value 5 returns 5, the caller's value, though the cache has an entry for the
  pair.
\<close>

theorem C5_cached_equals_fallback_counterexample:
  "reachable PlainAnimation_methods systemD \<and>
   head_group systemD = [] \<and>
   map_of (m_propertyCache systemD) (MapPlane, Scale) = Some (DoubleValue 5) \<and>
   fst (AnimationSystem_GetProperty PlainAnimation_methods systemD MapPlane Scale (DoubleValue 5))
     = DoubleValue 5"
  using reachable_systemD
  by (simp add: systemD_value AnimationSystem_GetProperty_def head_group_def)

subsection \<open>AddAnimation with force\<close>

text \<open>
  Claim C6. The chain is one group with the one animation \<open>D\<close>, which is interruptible and
  cannot be mixed with \<open>C\<close>. After \<^verbatim>\<open>AddAnimation(C, true)\<close> the chain is one group that
  holds \<open>C\<close> after its \<^verbatim>\<open>OnStart\<close> and nothing else, the calls made are \<^verbatim>\<open>Interrupt\<close> on
  \<open>D\<close> and then \<^verbatim>\<open>OnStart\<close> on \<open>C\<close>, and for every object of \<open>D\<close> and every property of
  that object the cache holds the value that \<open>D\<close> has after its \<^verbatim>\<open>Interrupt\<close>.
\<close>

theorem C6_forced_eviction:
  assumes "m_animationChain s = [[D]]"
    and "Animation_couldBeInterrupted V D"
    and "\<not> CouldBeMixedWith V D C"
  shows "let s' = AnimationSystem_AddAnimation V s C True; D' = Animation_Interrupt V D in
      m_animationChain s' = [[Animation_OnStart V C]] \<and>
      new_calls (calls s) (calls s') = [InterruptCall D, OnStartCall C] \<and>
      (\<forall>object \<in> set (Animation_GetObjects V D').
         \<forall>property \<in> set (Animation_GetProperties V D' object).
           map_of (m_propertyCache s') (object, property)
             = Some (Animation_GetProperty V D' object property))"
  using assms
  by (simp add: AnimationSystem_AddAnimation_def Let_def map_of_SaveAnimationResult)

text \<open>
  The theorem at \<open>animD\<close>, which drives the position and the scale of the map plane with
  the value 5, and \<open>animC\<close>, which drives the scale.
\<close>

theorem C6_forced_eviction_witness:
  "m_animationChain (system_of [[animD]] []) = [[animD]] \<and>
   Animation_couldBeInterrupted PlainAnimation_methods animD \<and>
   \<not> CouldBeMixedWith PlainAnimation_methods animD animC \<and>
   m_animationChain
     (AnimationSystem_AddAnimation PlainAnimation_methods (system_of [[animD]] []) animC True)
     = [[animC\<lparr>plain_started := True\<rparr>]] \<and>
   calls (AnimationSystem_AddAnimation PlainAnimation_methods (system_of [[animD]] []) animC True)
     = [InterruptCall animD, OnStartCall animC] \<and>
   map_of (m_propertyCache
       (AnimationSystem_AddAnimation PlainAnimation_methods (system_of [[animD]] []) animC True))
     (MapPlane, Position) = Some (DoubleValue 5) \<and>
   map_of (m_propertyCache
       (AnimationSystem_AddAnimation PlainAnimation_methods (system_of [[animD]] []) animC True))
     (MapPlane, Scale) = Some (DoubleValue 5)"
proof -
  have h1: "m_animationChain (system_of [[animD]] []) = [[animD]]"
    by (simp add: system_of_def)
  have h2: "Animation_couldBeInterrupted PlainAnimation_methods animD"
    by (simp add: plain_defs)
  have h3: "\<not> CouldBeMixedWith PlainAnimation_methods animD animC"
    by (simp add: CouldBeMixedWith_def CouldBeMixedWith_properties_def set_intersection_def
        plain_defs)
  have c: "calls (system_of [[animD]] []) = ([] :: PlainAnimation Call list)"
    by (simp add: system_of_def)
  show ?thesis
    using C6_forced_eviction [OF h1 h2 h3] h1 h2 h3
    by (simp add: Let_def c new_calls_def plain_defs)
qed

lemma AddAnimation_list_mixable_prefix:
  "\<forall>x \<in> set pre. CouldBeMixedWith V x a \<Longrightarrow>
     AddAnimation_list V a force (pre @ xs) c cs =
       (case AddAnimation_list V a force xs c cs of
          (b, xs', c', cs') \<Rightarrow> (b, pre @ xs', c', cs'))"
  by (induction pre) (simp_all split: prod.splits)

lemma AddAnimation_list_calls:
  "AddAnimation_list V a force xs c cs = (b, xs', c', cs') \<Longrightarrow>
     \<exists>ds. cs' = cs @ ds \<and> \<not> list_ex is_OnStartCall ds"
proof (induction xs arbitrary: c cs b xs' c' cs')
  case Nil
  then show ?case by simp
next
  case (Cons x xs)
  show ?case
  proof (cases "CouldBeMixedWith V x a")
    case True
    obtain m ys d ds where r: "AddAnimation_list V a force xs c cs = (m, ys, d, ds)"
      by (cases "AddAnimation_list V a force xs c cs") auto
    with True Cons.prems have "ds = cs'" by simp
    with Cons.IH [OF r] show ?thesis by simp
  next
    case False
    show ?thesis
    proof (cases "\<not> force \<or> \<not> Animation_couldBeInterrupted V x")
      case True
      with False Cons.prems have "cs' = cs" by auto
      then show ?thesis by simp
    next
      case stop: False
      with False Cons.prems have
        "AddAnimation_list V a force xs
           (SaveAnimationResult V (Animation_Interrupt V x) c) (cs @ [InterruptCall x])
         = (b, xs', c', cs')"
        by simp
      from Cons.IH [OF this] obtain ds where
        ds: "cs' = (cs @ [InterruptCall x]) @ ds" and n: "\<not> list_ex is_OnStartCall ds"
        by blast
      have "cs' = cs @ (InterruptCall x # ds)" using ds by simp
      moreover have "\<not> list_ex is_OnStartCall (InterruptCall x # ds)" using n by simp
      ultimately show ?thesis by blast
    qed
  qed
qed

lemma AddAnimation_chain_places:
  "AddAnimation_chain V a force ch c cs = (added, ch', c', cs') \<Longrightarrow>
     (\<exists>ds. cs' = cs @ ds @ (if added then [OnStartCall a] else []) \<and>
           \<not> list_ex is_OnStartCall ds) \<and>
     (added \<longrightarrow> (\<exists>g \<in> set ch'. g \<noteq> [] \<and> last g = Animation_OnStart V a)) \<and>
     length ch' = length ch"
proof (induction ch arbitrary: c cs added ch' c' cs')
  case Nil
  then show ?case by simp
next
  case (Cons g gs)
  obtain m g1 c1 cs1 where l: "AddAnimation_list V a force g c cs = (m, g1, c1, cs1)"
    by (cases "AddAnimation_list V a force g c cs") auto
  from AddAnimation_list_calls [OF l] obtain ds1 where
    ds1: "cs1 = cs @ ds1" and n1: "\<not> list_ex is_OnStartCall ds1"
    by blast
  show ?case
  proof (cases m)
    case True
    with l Cons.prems have e: "added" "ch' = (g1 @ [Animation_OnStart V a]) # gs"
      "cs' = cs1 @ [OnStartCall a]"
      by simp_all
    have "cs' = cs @ ds1 @ (if added then [OnStartCall a] else [])" using e ds1 by simp
    with n1 e show ?thesis by auto
  next
    case False
    obtain m2 gs' d2 ds2 where r: "AddAnimation_chain V a force gs c1 cs1 = (m2, gs', d2, ds2)"
      by (cases "AddAnimation_chain V a force gs c1 cs1") auto
    with False l Cons.prems have e: "m2 = added" "ch' = g1 # gs'" "ds2 = cs'" by simp_all
    from Cons.IH [OF r] obtain ds where
      ds: "ds2 = cs1 @ ds @ (if m2 then [OnStartCall a] else [])"
      and n: "\<not> list_ex is_OnStartCall ds"
      and p: "m2 \<longrightarrow> (\<exists>g \<in> set gs'. g \<noteq> [] \<and> last g = Animation_OnStart V a)"
      and len: "length gs' = length gs"
      by blast
    have "cs' = cs @ (ds1 @ ds) @ (if added then [OnStartCall a] else [])"
      using ds ds1 e by simp
    moreover have "\<not> list_ex is_OnStartCall (ds1 @ ds)" using n n1 by simp
    ultimately have 1: "\<exists>ds. cs' = cs @ ds @ (if added then [OnStartCall a] else []) \<and>
           \<not> list_ex is_OnStartCall ds"
      by blast
    have 2: "added \<longrightarrow> (\<exists>g \<in> set ch'. g \<noteq> [] \<and> last g = Animation_OnStart V a)"
      using p e by auto
    have 3: "length ch' = length (g # gs)" using len e by simp
    from 1 2 3 show ?thesis by blast
  qed
qed

text \<open>Wherever it is added, an animation is started and put last into one group.\<close>

lemma AddAnimation_places:
  "(\<exists>g \<in> set (m_animationChain (AnimationSystem_AddAnimation V s a force)).
       g \<noteq> [] \<and> last g = Animation_OnStart V a) \<and>
   (\<exists>ds. calls (AnimationSystem_AddAnimation V s a force) = calls s @ ds @ [OnStartCall a] \<and>
         \<not> list_ex is_OnStartCall ds)"
proof -
  obtain added ch' c' cs' where r:
    "AddAnimation_chain V a force (m_animationChain s) (m_propertyCache s) (calls s)
       = (added, ch', c', cs')"
    by (cases "AddAnimation_chain V a force (m_animationChain s) (m_propertyCache s) (calls s)")
       auto
  from AddAnimation_chain_places [OF r] obtain ds where
    ds: "cs' = calls s @ ds @ (if added then [OnStartCall a] else [])"
    and n: "\<not> list_ex is_OnStartCall ds"
    and p: "added \<longrightarrow> (\<exists>g \<in> set ch'. g \<noteq> [] \<and> last g = Animation_OnStart V a)"
    by blast
  show ?thesis
  proof (cases added)
    case True
    with r ds n p show ?thesis
      by (auto simp: AnimationSystem_AddAnimation_def)
  next
    case False
    with r ds n show ?thesis
      by (auto simp: AnimationSystem_AddAnimation_def AnimationSystem_PushAnimation_def)
  qed
qed



subsection \<open>Advance\<close>

lemma call_on_Cons: "call_on V dt xs c \<Longrightarrow> call_on V dt (x # xs) c"
  by (cases c) auto

lemma Advance_frontList_calls:
  "Advance_frontList V dt xs c cs = (xs', c', cs') \<Longrightarrow>
     \<exists>ds. cs' = cs @ ds \<and> list_all (call_on V dt xs) ds"
proof (induction xs arbitrary: c cs xs' c' cs')
  case Nil
  then show ?case by simp
next
  case (Cons x xs)
  let ?x = "Animation_Advance V x dt"
  show ?case
  proof (cases "Animation_IsFinished V ?x")
    case True
    with Cons.prems have "Advance_frontList V dt xs
        (SaveAnimationResult V (Animation_OnFinish V ?x) c)
        ((cs @ [AdvanceCall x dt]) @ [OnFinishCall ?x]) = (xs', c', cs')"
      by (simp add: Let_def)
    from Cons.IH [OF this] obtain ds where
      ds: "cs' = ((cs @ [AdvanceCall x dt]) @ [OnFinishCall ?x]) @ ds"
      and on: "list_all (call_on V dt xs) ds"
      by blast
    have "cs' = cs @ (AdvanceCall x dt # OnFinishCall ?x # ds)" using ds by simp
    moreover have "list_all (call_on V dt (x # xs)) (AdvanceCall x dt # OnFinishCall ?x # ds)"
      using on by (simp add: list_all_iff call_on_Cons)
    ultimately show ?thesis by blast
  next
    case False
    obtain ys d es where r: "Advance_frontList V dt xs c (cs @ [AdvanceCall x dt]) = (ys, d, es)"
      by (cases "Advance_frontList V dt xs c (cs @ [AdvanceCall x dt])") auto
    with False Cons.prems have e: "es = cs'" by (simp add: Let_def)
    from Cons.IH [OF r] obtain ds where
      ds: "es = (cs @ [AdvanceCall x dt]) @ ds" and on: "list_all (call_on V dt xs) ds"
      by blast
    have "cs' = cs @ (AdvanceCall x dt # ds)" using ds e by simp
    moreover have "list_all (call_on V dt (x # xs)) (AdvanceCall x dt # ds)"
      using on by (simp add: list_all_iff call_on_Cons)
    ultimately show ?thesis by blast
  qed
qed

lemma Advance_tl:
  "tl (m_animationChain (AnimationSystem_Advance V s dt)) = tl (m_animationChain s)"
  by (cases "m_animationChain s")
     (simp_all add: AnimationSystem_Advance_def split: prod.splits)

lemma Advance_calls_on_head:
  "\<exists>ds. calls (AnimationSystem_Advance V s dt) = calls s @ ds \<and>
        list_all (call_on V dt (head_group s)) ds"
proof (cases "m_animationChain s")
  case Nil
  then show ?thesis by (simp add: AnimationSystem_Advance_def)
next
  case (Cons front chain)
  obtain ys d es where r:
    "Advance_frontList V dt front (m_propertyCache s) (calls s) = (ys, d, es)"
    by (cases "Advance_frontList V dt front (m_propertyCache s) (calls s)") auto
  from Advance_frontList_calls [OF r] Cons r show ?thesis
    by (simp add: AnimationSystem_Advance_def head_group_def)
qed

lemma Advance_empty_head:
  "m_animationChain s = [] # rest \<Longrightarrow> AnimationSystem_Advance V s dt = s"
  by (simp add: AnimationSystem_Advance_def)

lemma Advances_empty_head:
  "m_animationChain s = [] # rest \<Longrightarrow> AnimationSystem_Advances V s dts = s"
  unfolding AnimationSystem_Advances_def
  by (induction dts) (simp_all add: Advance_empty_head)

lemma Advances_tl:
  "tl (m_animationChain (AnimationSystem_Advances V s dts)) = tl (m_animationChain s)"
  unfolding AnimationSystem_Advances_def
  by (induction dts arbitrary: s) (simp_all add: Advance_tl)

text \<open>
  Claim C7. Any sequence of \<^verbatim>\<open>Advance\<close> calls leaves the groups after the head as they
  are; every call that \<^verbatim>\<open>Advance(dt)\<close> makes on an animation is \<^verbatim>\<open>Advance(dt)\<close> on a member
  of the head group or \<^verbatim>\<open>OnFinish\<close> on such a member as advanced; and when the head group
  is empty, any sequence of \<^verbatim>\<open>Advance\<close> calls leaves the whole system as it is: the empty
  group stays the head, no later group is promoted and no call is made.
\<close>

theorem C7_Advance_only_head:
  "tl (m_animationChain (AnimationSystem_Advances V s dts)) = tl (m_animationChain s) \<and>
   list_all (call_on V dt (head_group s))
     (new_calls (calls s) (calls (AnimationSystem_Advance V s dt))) \<and>
   (m_animationChain s = [] # rest \<longrightarrow> AnimationSystem_Advances V s dts = s)"
proof (intro conjI impI)
  show "tl (m_animationChain (AnimationSystem_Advances V s dts)) = tl (m_animationChain s)"
    by (rule Advances_tl)
  show "list_all (call_on V dt (head_group s))
     (new_calls (calls s) (calls (AnimationSystem_Advance V s dt)))"
    using Advance_calls_on_head [of V s dt] by auto
  show "AnimationSystem_Advances V s dts = s" if "m_animationChain s = [] # rest"
    using that by (rule Advances_empty_head)
qed

text \<open>
  The theorem at the chain of an empty group and the group of \<open>animB\<close>, advanced by 1 and
  by 2 seconds.
\<close>

theorem C7_Advance_only_head_witness:
  "m_animationChain (system_of [[], [animB]] []) = [] # [[animB]] \<and>
   AnimationSystem_Advances PlainAnimation_methods (system_of [[], [animB]] []) [1, 2]
     = system_of [[], [animB]] [] \<and>
   m_animationChain
     (AnimationSystem_Advances PlainAnimation_methods (system_of [[], [animB]] []) [1, 2])
     = [[], [animB]]"
proof -
  have h: "m_animationChain (system_of [[], [animB]] []) = [] # [[animB]]"
    by (simp add: system_of_def)
  show ?thesis
    using C7_Advance_only_head
      [of PlainAnimation_methods "system_of [[], [animB]] []" "[1, 2]" 1 "[[animB]]"] h
    by simp
qed

subsection \<open>SequenceAnimation\<close>

text \<open>
  Claim C9. On a sequence that is not empty, \<^verbatim>\<open>Advance(dt)\<close> calls \<^verbatim>\<open>Advance(dt)\<close> on the
  head and on no other member. If the head is then finished, \<^verbatim>\<open>OnFinish\<close> is called on it
  and it is removed from the sequence, whose other members stay as they are; otherwise
  the advanced head stays. In both cases no \<^verbatim>\<open>OnStart\<close> is called.
\<close>

theorem C9_SequenceAnimation_Advance:
  assumes "Sequence_animations s = front # rest"
  shows "let s' = SequenceAnimation_Advance V s dt;
             front' = Animation_Advance V front dt;
             cs = new_calls (Sequence_calls s) (Sequence_calls s')
         in (Animation_IsFinished V front' \<longrightarrow>
               Sequence_animations s' = rest \<and> cs = [AdvanceCall front dt, OnFinishCall front']) \<and>
            (\<not> Animation_IsFinished V front' \<longrightarrow>
               Sequence_animations s' = front' # rest \<and> cs = [AdvanceCall front dt]) \<and>
            \<not> list_ex is_OnStartCall cs"
  using assms by (simp add: SequenceAnimation_Advance_def Let_def)

text \<open>
  The theorem at the sequence of \<open>animA\<close>, which lasts one second, and \<open>animB\<close>, advanced
  by 2 seconds: \<open>animA\<close> is finished and removed, and \<open>animB\<close>, the new head, has not been
  started.
\<close>

theorem C9_SequenceAnimation_Advance_witness:
  "Sequence_animations \<lparr>Sequence_animations = [animA, animB], Sequence_calls = []\<rparr>
     = animA # [animB] \<and>
   Animation_IsFinished PlainAnimation_methods
     (animA\<lparr>plain_interpolator := \<lparr>m_elapsedTime = 2, m_duration = 1, m_delay = 0\<rparr>\<rparr>) \<and>
   SequenceAnimation_Advance PlainAnimation_methods
     \<lparr>Sequence_animations = [animA, animB], Sequence_calls = []\<rparr> 2
     = \<lparr>Sequence_animations = [animB],
        Sequence_calls =
          [AdvanceCall animA 2,
           OnFinishCall
             (animA\<lparr>plain_interpolator := \<lparr>m_elapsedTime = 2, m_duration = 1, m_delay = 0\<rparr>\<rparr>)]\<rparr> \<and>
   plain_started animB = False"
proof -
  let ?s = "\<lparr>Sequence_animations = [animA, animB], Sequence_calls = []\<rparr>"
  have h: "Sequence_animations ?s = animA # [animB]" by simp
  have a: "Animation_Advance PlainAnimation_methods animA 2
      = animA\<lparr>plain_interpolator := \<lparr>m_elapsedTime = 2, m_duration = 1, m_delay = 0\<rparr>\<rparr>"
    by (simp add: plain_defs)
  have f: "Animation_IsFinished PlainAnimation_methods
     (animA\<lparr>plain_interpolator := \<lparr>m_elapsedTime = 2, m_duration = 1, m_delay = 0\<rparr>\<rparr>)"
    by (simp add: plain_defs)
  have b: "plain_started animB = False" by (simp add: plain_defs)
  from C9_SequenceAnimation_Advance [OF h, of PlainAnimation_methods 2] f
  have "Sequence_animations (SequenceAnimation_Advance PlainAnimation_methods ?s 2) = [animB]"
    and "Sequence_calls (SequenceAnimation_Advance PlainAnimation_methods ?s 2)
      = [AdvanceCall animA 2,
         OnFinishCall
           (animA\<lparr>plain_interpolator := \<lparr>m_elapsedTime = 2, m_duration = 1, m_delay = 0\<rparr>\<rparr>)]"
    by (simp_all add: Let_def a new_calls_def)
  then have "SequenceAnimation_Advance PlainAnimation_methods ?s 2
     = \<lparr>Sequence_animations = [animB],
        Sequence_calls =
          [AdvanceCall animA 2,
           OnFinishCall
             (animA\<lparr>plain_interpolator := \<lparr>m_elapsedTime = 2, m_duration = 1, m_delay = 0\<rparr>\<rparr>)]\<rparr>"
    by (cases "SequenceAnimation_Advance PlainAnimation_methods ?s 2") simp
  with h f b show ?thesis by simp
qed

subsection \<open>FollowAnimation\<close>

lemma SetMove_keeps_scale:
  "FollowAnimation_SetMove a sp ep conv = Some b \<Longrightarrow>
     m_scaleInterpolator b = m_scaleInterpolator a"
  by (auto simp: FollowAnimation_SetMove_def split: if_splits option.splits)

lemma SetRotate_keeps_scale:
  "FollowAnimation_SetRotate a sa ea = Some b \<Longrightarrow>
     m_scaleInterpolator b = m_scaleInterpolator a"
  by (auto simp: FollowAnimation_SetRotate_def split: if_splits)

lemma SetScale_equal: "FollowAnimation_SetScale a sc sc = Some a"
  by (simp add: FollowAnimation_SetScale_def)

lemma FollowAnimation_new_equal_scales:
  assumes "FollowAnimation_new sp ep sa ea sc sc conv = Some b"
  shows "m_scaleInterpolator b = None"
proof -
  from assms obtain a1 a2 where
    1: "FollowAnimation_SetMove FollowAnimation_empty sp ep conv = Some a1"
    and 2: "FollowAnimation_SetRotate a1 sa ea = Some a2"
    and 3: "FollowAnimation_SetScale a2 sc sc = Some b"
    by (auto simp: FollowAnimation_new_def split: option.splits)
  from 3 have "b = a2" by (simp add: SetScale_equal)
  with SetMove_keeps_scale [OF 1] SetRotate_keeps_scale [OF 2] show ?thesis
    by (simp add: FollowAnimation_empty_def)
qed

lemma GetProperty_absent:
  assumes "interpolator_absent a p"
  shows "FollowAnimation_GetProperty True a MapPlane p = Inl AssertionFailed \<and>
         FollowAnimation_GetProperty False a MapPlane p = Inr (DoubleValue 0)"
  using assms
  by (cases p) (simp_all add: interpolator_absent_def FollowAnimation_GetProperty_def)

text \<open>
  Claim C8. For a follow animation and a property whose interpolator is absent,
  \<^verbatim>\<open>GetProperty(MapPlane, property)\<close> fails an assertion in a debug build and returns the
  double 0.0 otherwise. In particular this holds for the scale of a follow animation
  constructed with equal start and end scales.
\<close>

theorem C8_absent_interpolator:
  "(interpolator_absent a p \<longrightarrow>
      FollowAnimation_GetProperty True a MapPlane p = Inl AssertionFailed \<and>
      FollowAnimation_GetProperty False a MapPlane p = Inr (DoubleValue 0)) \<and>
   (FollowAnimation_new startPos endPos startAngle endAngle scale scale convertor = Some b \<longrightarrow>
      FollowAnimation_GetProperty True b MapPlane Scale = Inl AssertionFailed \<and>
      FollowAnimation_GetProperty False b MapPlane Scale = Inr (DoubleValue 0))"
proof (intro conjI impI)
  assume "interpolator_absent a p"
  then show "FollowAnimation_GetProperty True a MapPlane p = Inl AssertionFailed"
    and "FollowAnimation_GetProperty False a MapPlane p = Inr (DoubleValue 0)"
    by (simp_all add: GetProperty_absent)
next
  assume "FollowAnimation_new startPos endPos startAngle endAngle scale scale convertor = Some b"
  then have "interpolator_absent b Scale"
    by (simp add: interpolator_absent_def FollowAnimation_new_equal_scales)
  then show "FollowAnimation_GetProperty True b MapPlane Scale = Inl AssertionFailed"
    and "FollowAnimation_GetProperty False b MapPlane Scale = Inr (DoubleValue 0)"
    by (simp_all add: GetProperty_absent)
qed

lemma sqrt_100: "sqrt 100 = 10"
  by (rule real_sqrt_unique) simp_all

lemma GetMoveDuration_example:
  "GetMoveDuration (PointD 0 0) (PointD 10 0) screen100 = Some (1 / 5)"
  by (simp add: GetMoveDuration_def screen100_def sqrt_100 Let_def)

text \<open>
  The theorem at the follow animation that moves from the origin to (10, 0) with the
  angle and the scale kept: only the position is driven, and reading the scale fails the
  assertion or returns 0.0.
\<close>

theorem C8_absent_interpolator_witness:
  "FollowAnimation_new (PointD 0 0) (PointD 10 0) 0 0 1 1 screen100 = Some followMove \<and>
   m_properties followMove = [Position] \<and>
   interpolator_absent followMove Scale \<and>
   FollowAnimation_GetProperty True followMove MapPlane Scale = Inl AssertionFailed \<and>
   FollowAnimation_GetProperty False followMove MapPlane Scale = Inr (DoubleValue 0) \<and>
   FollowAnimation_GetProperty True followMove MapPlane Position = Inr (PointValue (PointD 0 0))"
proof -
  have n: "FollowAnimation_new (PointD 0 0) (PointD 10 0) 0 0 1 1 screen100 = Some followMove"
    by (simp add: FollowAnimation_new_def FollowAnimation_SetMove_def
        FollowAnimation_SetRotate_def FollowAnimation_SetScale_def PositionInterpolator_new_def
        GetMoveDuration_example followMove_def FollowAnimation_empty_def)
  have p: "m_properties followMove = [Position]"
    "interpolator_absent followMove Scale"
    "FollowAnimation_GetProperty True followMove MapPlane Position
       = Inr (PointValue (PointD 0 0))"
    by (simp_all add: followMove_def interpolator_absent_def FollowAnimation_GetProperty_def)
  show ?thesis
    using C8_absent_interpolator
      [of followMove Scale "PointD 0 0" "PointD 10 0" 0 0 1 screen100 followMove] n p
    by simp
qed

end
